theory Spec2Isabelle
  imports Main "HOL-Library.AList"
begin

section \<open>Go library functions used by webfactory\<close>

text \<open>
  Go strings and byte slices are byte sequences: they are modelled as \<open>string\<close>
  (a list of 8-bit characters). The functions of this section model the parts of the
  Go packages \<open>strings\<close>, \<open>bytes\<close>, \<open>strconv\<close>, \<open>unicode\<close> and \<open>path/filepath\<close>
  that the repository calls, after their documented behaviour.
\<close>

definition byte :: "char \<Rightarrow> nat" where
  "byte c = of_char c"

text \<open>\<open>strings.HasPrefix\<close>, \<open>strings.TrimPrefix\<close>, \<open>strings.TrimSuffix\<close>.\<close>

fun HasPrefix :: "string \<Rightarrow> string \<Rightarrow> bool" where
  "HasPrefix s [] = True"
| "HasPrefix [] (c # p) = False"
| "HasPrefix (a # s) (c # p) = (a = c \<and> HasPrefix s p)"

definition TrimPrefix :: "string \<Rightarrow> string \<Rightarrow> string" where
  "TrimPrefix s p = (if HasPrefix s p then drop (length p) s else s)"

definition HasSuffix :: "string \<Rightarrow> string \<Rightarrow> bool" where
  "HasSuffix s p = HasPrefix (rev s) (rev p)"

definition TrimSuffix :: "string \<Rightarrow> string \<Rightarrow> string" where
  "TrimSuffix s p = (if HasSuffix s p then take (length s - length p) s else s)"

text \<open>
  \<open>unicode.IsSpace\<close>. Go decodes a string as UTF-8; the white space code points are
  U+0009..U+000D, U+0020, U+0085, U+00A0, U+1680, U+2000..U+200A, U+2028, U+2029,
  U+202F, U+205F and U+3000. \<open>spaceWidth s\<close> is the number of bytes of the white space
  code point encoded at the front of \<open>s\<close>, and 0 when \<open>s\<close> does not start with one.
  No encoding of a white space code point starts with a continuation byte, so scanning
  byte by byte meets the same white space as Go's scan by code points (which steps over
  an invalid byte one byte at a time).
\<close>

fun spaceWidth :: "string \<Rightarrow> nat" where
  "spaceWidth [] = 0"
| "spaceWidth (c # cs) =
     (let b = byte c in
      if b = 9 \<or> b = 10 \<or> b = 11 \<or> b = 12 \<or> b = 13 \<or> b = 32 then 1
      else if b = 194 then
        (case cs of
           d # _ \<Rightarrow> if byte d = 133 \<or> byte d = 160 then 2 else 0
         | [] \<Rightarrow> 0)
      else if b = 225 then
        (case cs of
           d # e # _ \<Rightarrow> if byte d = 154 \<and> byte e = 128 then 3 else 0
         | _ \<Rightarrow> 0)
      else if b = 226 then
        (case cs of
           d # e # _ \<Rightarrow>
             if (byte d = 128 \<and> (128 \<le> byte e \<and> byte e \<le> 138 \<or> byte e = 168
                                   \<or> byte e = 169 \<or> byte e = 175))
                \<or> (byte d = 129 \<and> byte e = 159)
             then 3 else 0
         | _ \<Rightarrow> 0)
      else if b = 227 then
        (case cs of
           d # e # _ \<Rightarrow> if byte d = 128 \<and> byte e = 128 then 3 else 0
         | _ \<Rightarrow> 0)
      else 0)"

text \<open>The width of the white space code point encoded at the end of \<open>s\<close> (0 if none).\<close>

definition spaceWidthEnd :: "string \<Rightarrow> nat" where
  "spaceWidthEnd s =
     (if 1 \<le> length s \<and> spaceWidth (drop (length s - 1) s) = 1 then 1
      else if 2 \<le> length s \<and> spaceWidth (drop (length s - 2) s) = 2 then 2
      else if 3 \<le> length s \<and> spaceWidth (drop (length s - 3) s) = 3 then 3
      else 0)"

lemma spaceWidth_le: "spaceWidth s \<le> length s"
  by (cases s) (auto simp: Let_def split: list.splits)

lemma spaceWidthEnd_le: "spaceWidthEnd s \<le> length s"
  by (simp add: spaceWidthEnd_def)

function trimLeftSpace :: "string \<Rightarrow> string" where
  "trimLeftSpace s =
     (if spaceWidth s = 0 then s else trimLeftSpace (drop (spaceWidth s) s))"
  by pat_completeness auto
termination
proof (relation "measure length")
  fix s :: string
  assume "spaceWidth s \<noteq> 0"
  moreover have "spaceWidth s \<le> length s" by (rule spaceWidth_le)
  ultimately show "(drop (spaceWidth s) s, s) \<in> measure length" by simp
qed simp

function trimRightSpace :: "string \<Rightarrow> string" where
  "trimRightSpace s =
     (if spaceWidthEnd s = 0 then s
      else trimRightSpace (take (length s - spaceWidthEnd s) s))"
  by pat_completeness auto
termination
proof (relation "measure length")
  fix s :: string
  assume "spaceWidthEnd s \<noteq> 0"
  moreover have "spaceWidthEnd s \<le> length s" by (rule spaceWidthEnd_le)
  ultimately show "(take (length s - spaceWidthEnd s) s, s) \<in> measure length" by simp
qed simp

declare trimLeftSpace.simps [simp del] trimRightSpace.simps [simp del]

text \<open>\<open>strings.TrimSpace\<close>: leading and trailing white space removed.\<close>

definition TrimSpace :: "string \<Rightarrow> string" where
  "TrimSpace s = trimRightSpace (trimLeftSpace s)"

text \<open>
  \<open>unicode.IsSpace(rune(b))\<close> for a single byte \<open>b\<close>: the byte is read as a Latin-1
  code point, so 0x85 and 0xA0 count as white space.
\<close>

definition IsSpaceByte :: "char \<Rightarrow> bool" where
  "IsSpaceByte c =
     (let b = byte c in
      b = 9 \<or> b = 10 \<or> b = 11 \<or> b = 12 \<or> b = 13 \<or> b = 32 \<or> b = 133 \<or> b = 160)"

text \<open>\<open>strings.Fields\<close>: the maximal runs of non-space bytes, in order.\<close>

function fieldsFrom :: "string \<Rightarrow> string \<Rightarrow> string list" where
  "fieldsFrom s cur =
     (if s = [] then (if cur = [] then [] else [cur])
      else if spaceWidth s = 0 then fieldsFrom (tl s) (cur @ [hd s])
      else (if cur = [] then [] else [cur]) @ fieldsFrom (drop (spaceWidth s) s) [])"
  by pat_completeness auto
termination
proof (relation "measure (\<lambda>(s, cur). length s)")
  fix s cur :: string
  assume "s \<noteq> []" "spaceWidth s \<noteq> 0"
  moreover have "spaceWidth s \<le> length s" by (rule spaceWidth_le)
  ultimately show "((drop (spaceWidth s) s, []), (s, cur)) \<in> measure (\<lambda>(s, cur). length s)"
    by simp
qed simp_all

declare fieldsFrom.simps [simp del]

definition Fields :: "string \<Rightarrow> string list" where
  "Fields s = fieldsFrom s []"

text \<open>\<open>strings.Split\<close> with a one-byte separator: always at least one piece.\<close>

fun Split :: "string \<Rightarrow> char \<Rightarrow> string list" where
  "Split [] sep = [[]]"
| "Split (x # xs) sep =
     (if x = sep then [] # Split xs sep
      else (case Split xs sep of
              y # ys \<Rightarrow> (x # y) # ys
            | [] \<Rightarrow> [[x]]))"

text \<open>\<open>strings.Join\<close>.\<close>

fun Join :: "string list \<Rightarrow> string \<Rightarrow> string" where
  "Join [] sep = []"
| "Join [x] sep = x"
| "Join (x # y # xs) sep = x @ sep @ Join (y # xs) sep"

text \<open>\<open>strings.IndexByte\<close>: the first position of the byte; \<open>None\<close> stands for -1.\<close>

fun IndexByte :: "string \<Rightarrow> char \<Rightarrow> nat option" where
  "IndexByte [] c = None"
| "IndexByte (x # xs) c =
     (if x = c then Some 0 else map_option Suc (IndexByte xs c))"

text \<open>\<open>bytes.Index\<close> / \<open>strings.Index\<close>: the first position of a substring.\<close>

fun bytesIndex :: "string \<Rightarrow> string \<Rightarrow> nat option" where
  "bytesIndex [] sub = (if sub = [] then Some 0 else None)"
| "bytesIndex (x # xs) sub =
     (if HasPrefix (x # xs) sub then Some 0 else map_option Suc (bytesIndex xs sub))"

definition Contains :: "string \<Rightarrow> string \<Rightarrow> bool" where
  "Contains s sub = (bytesIndex s sub \<noteq> None)"

text \<open>
  \<open>bytes.ReplaceAll\<close> / \<open>strings.ReplaceAll\<close> for a non-empty \<open>old\<close> (the repository
  never passes an empty one): the non-overlapping occurrences, found left to right,
  are replaced. With an empty \<open>old\<close> the model returns \<open>s\<close> unchanged, which is not
  what Go does.
\<close>

function ReplaceAll :: "string \<Rightarrow> string \<Rightarrow> string \<Rightarrow> string" where
  "ReplaceAll s old new =
     (if s = [] \<or> old = [] then s
      else if HasPrefix s old then new @ ReplaceAll (drop (length old) s) old new
      else hd s # ReplaceAll (tl s) old new)"
  by pat_completeness auto
termination
  by (relation "measure (\<lambda>(s, old, new). length s)") auto

declare ReplaceAll.simps [simp del]

text \<open>\<open>strings.TrimRight\<close> and \<open>strings.Trim\<close> with a one-byte cutset.\<close>

definition TrimRight :: "string \<Rightarrow> char \<Rightarrow> string" where
  "TrimRight s c = rev (dropWhile (\<lambda>x. x = c) (rev s))"

definition Trim :: "string \<Rightarrow> char \<Rightarrow> string" where
  "Trim s c = TrimRight (dropWhile (\<lambda>x. x = c) s) c"

text \<open>
  \<open>strconv.Atoi\<close> on a 64-bit platform: an optional sign, then one or more decimal
  digits; a value outside the range of \<open>int\<close> is an error (\<open>None\<close>).
\<close>

definition isDigit :: "char \<Rightarrow> bool" where
  "isDigit c = (48 \<le> byte c \<and> byte c \<le> 57)"

definition digitsValue :: "string \<Rightarrow> int" where
  "digitsValue ds = foldl (\<lambda>a c. a * 10 + (int (byte c) - 48)) 0 ds"

definition Atoi :: "string \<Rightarrow> int option" where
  "Atoi s =
     (let neg = (s \<noteq> [] \<and> hd s = CHR ''-'');
          ds = (if s \<noteq> [] \<and> (hd s = CHR ''-'' \<or> hd s = CHR ''+'') then tl s else s)
      in if ds = [] \<or> \<not> list_all isDigit ds then None
         else (let v = (if neg then - digitsValue ds else digitsValue ds)
               in if v < - 9223372036854775808 \<or> 9223372036854775807 < v then None
                  else Some v))"

text \<open>\<open>strconv.Itoa\<close>.\<close>

definition digitChar :: "nat \<Rightarrow> char" where
  "digitChar d = ''0123456789'' ! d"

fun natDigits :: "nat \<Rightarrow> string" where
  "natDigits n =
     (if n < 10 then [digitChar n] else natDigits (n div 10) @ [digitChar (n mod 10)])"

declare natDigits.simps [simp del]

definition Itoa :: "int \<Rightarrow> string" where
  "Itoa i = (if i < 0 then CHR ''-'' # natDigits (nat (- i)) else natDigits (nat i))"

section \<open>Package blueprint\<close>

record Block =
  Path :: string
  Index :: "int list"
  ID :: int
  Vars :: "string \<rightharpoonup> string list"

datatype Node = Node (Block: Block) (Children: "Node list")

text \<open>\<open>Block{ID: -1}\<close>, the block of the synthetic root.\<close>

definition rootBlock :: Block where
  "rootBlock = \<lparr>Path = [], Index = [], ID = - 1, Vars = Map.empty\<rparr>"

text \<open>The loop of \<open>parseLine\<close> over the index segments: the first failing \<open>Atoi\<close> rejects the line.\<close>

fun parseIndex :: "string list \<Rightarrow> int list option" where
  "parseIndex [] = Some []"
| "parseIndex (str # rest) =
     (case Atoi str of
        None \<Rightarrow> None
      | Some num \<Rightarrow> map_option ((#) num) (parseIndex rest))"

text \<open>\<open>parseLine\<close>: \<open>None\<close> stands for the result \<open>(Block{}, false)\<close>.\<close>

definition parseLine :: "string \<Rightarrow> int \<Rightarrow> Block option" where
  "parseLine line0 id' =
     (let line = TrimSpace line0 in
      if line = [] \<or> HasPrefix line ''#'' then None
      else if HasPrefix line ''.'' then None
      else (let parts = Fields line in
            if length parts \<noteq> 2 then None
            else (case parseIndex (Split (TrimRight (parts ! 0) CHR ''.'') CHR ''.'') of
                    None \<Rightarrow> None
                  | Some index \<Rightarrow>
                      Some \<lparr>Path = TrimSpace (parts ! 1), Index = index, ID = id',
                            Vars = Map.empty\<rparr>)))"

text \<open>
  The variable branch of the loop of \<open>New\<close>. \<open>currentBlock\<close> points at the last element
  of \<open>blocks\<close> (the slice is allocated with the capacity of the line count, so \<open>append\<close>
  never moves it), and is nil exactly while \<open>blocks\<close> is empty. The branch appends the
  value to the sequence bound to the name in the last block.
\<close>

definition addVar :: "string \<Rightarrow> string \<Rightarrow> Block \<Rightarrow> Block" where
  "addVar name val b =
     b\<lparr>Vars := (Vars b)(name \<mapsto> (case Vars b name of None \<Rightarrow> [] | Some vs \<Rightarrow> vs) @ [val])\<rparr>"

definition varLine :: "string \<Rightarrow> Block list \<Rightarrow> Block list" where
  "varLine line blocks =
     (if blocks = [] then blocks
      else (case IndexByte line CHR ''='' of
              None \<Rightarrow> blocks
            | Some eqIndex \<Rightarrow>
                (let varName = TrimSpace (take eqIndex line);
                     val = dropWhile IsSpaceByte (drop (eqIndex + 1) line)
                 in if HasPrefix varName ''.''
                    then butlast blocks @ [addVar (drop 1 varName) val (last blocks)]
                    else blocks)))"

text \<open>The loop of \<open>New\<close> over the lines, with the state \<open>(blocks, id)\<close>.\<close>

fun newLoop :: "string list \<Rightarrow> Block list \<Rightarrow> int \<Rightarrow> Block list" where
  "newLoop [] blocks id' = blocks"
| "newLoop (line0 # rest) blocks id' =
     (let line = TrimSpace line0 in
      if HasPrefix line ''.'' then newLoop rest (varLine line blocks) id'
      else (case parseLine line id' of
              Some block \<Rightarrow> newLoop rest (blocks @ [block]) (id' + 1)
            | None \<Rightarrow> newLoop rest blocks id'))"

definition parseBlocks :: "string \<Rightarrow> Block list" where
  "parseBlocks content = newLoop (Split content CHR 0x0A) [] 0"

text \<open>\<open>indexKey\<close>, the closure of \<open>buildTree\<close>.\<close>

definition indexKey :: "int list \<Rightarrow> string" where
  "indexKey index = Join (map Itoa index) ''.''"

text \<open>
  \<open>buildTree\<close> keeps every node in \<open>nodeMap\<close> under its index key and appends a new node
  to the children of the node found under the parent key. Keys in \<open>nodeMap\<close> are unique
  and every node of \<open>nodeMap\<close> hangs in the tree below the root, so the node
  \<open>nodeMap[parentKey]\<close> is the node of the tree whose block has that key: \<open>attach\<close>
  appends there. The model keeps the keys of \<open>nodeMap\<close> in the list \<open>seen\<close>.
\<close>

fun attach :: "string \<Rightarrow> Node \<Rightarrow> Node \<Rightarrow> Node" where
  "attach parentKey n (Node b cs) =
     (if indexKey (Index b) = parentKey then Node b (cs @ [n])
      else Node b (map (attach parentKey n) cs))"

definition appendChild :: "Node \<Rightarrow> Node \<Rightarrow> Node" where
  "appendChild root n = Node (Block root) (Children root @ [n])"

fun attachAll :: "Block list \<Rightarrow> Node \<Rightarrow> string list \<Rightarrow> Node option" where
  "attachAll [] root seen = Some root"
| "attachAll (block # rest) root seen =
     (let node = Node block [];
          key = indexKey (Index block)
      in if key \<in> set seen then None
         else (let seen' = key # seen in
               if length (Index block) > 0 then
                 (let parentKey = indexKey (butlast (Index block)) in
                  if parentKey \<in> set seen'
                  then attachAll rest (attach parentKey node root) seen'
                  else attachAll rest (appendChild root node) seen')
               else attachAll rest (appendChild root node) seen'))"

text \<open>
  The comparison keys of \<open>sortNodes\<close>: \<open>iIdx[0]\<close> under the root, \<open>iIdx[len(iIdx)-1]\<close>
  elsewhere. Go panics on an empty index there; no node with an empty index reaches
  the sort, because its key \<open>''''\<close> is the root's (lemma \<open>buildTree_Index_nonempty\<close>
  below), so the value chosen here for the empty index is never used.
\<close>

definition firstSeg :: "Node \<Rightarrow> int" where
  "firstSeg n = (case Index (Block n) of [] \<Rightarrow> 0 | x # _ \<Rightarrow> x)"

definition lastSeg :: "Node \<Rightarrow> int" where
  "lastSeg n = (case rev (Index (Block n)) of [] \<Rightarrow> 0 | x # _ \<Rightarrow> x)"

text \<open>
  \<open>sort.Slice\<close> with the order on a key. Go sorts a short slice by insertion, which
  keeps elements with equal keys in their order, as \<open>sort_key\<close> does: a slice of at
  most 12 elements since Go 1.19, and of at most 6 elements in every release (before
  Go 1.19 a pass that swaps elements 6 places apart comes first on 7 to 12 elements).
  On a longer slice Go promises a sorted rearrangement only, and elements with equal
  keys may come out in any order. \<open>sort.Slice\<close> sees the elements through the
  comparison only, so the rearrangement it makes is a function of the keys: it is the
  parameter \<open>perm\<close>, which gives for the keys of the slice the old positions of the
  elements in their new order. Positions outside the slice, which Go cannot produce,
  are left out.
\<close>

definition sortSlice :: "(int list \<Rightarrow> nat list) \<Rightarrow> ('a \<Rightarrow> int) \<Rightarrow> 'a list \<Rightarrow> 'a list" where
  "sortSlice perm key xs =
     (if length xs \<le> 6 then sort_key key xs
      else map (\<lambda>i. xs ! i) (filter (\<lambda>i. i < length xs) (perm (map key xs))))"

text \<open>
  \<open>sortNodes\<close>: \<open>sort.Slice\<close> of the children with the order on the key, then the
  recursion into the sorted children.
\<close>

function sortNodes :: "(int list \<Rightarrow> nat list) \<Rightarrow> bool \<Rightarrow> Node \<Rightarrow> Node" where
  "sortNodes perm isRoot (Node b cs) =
     Node b (map (sortNodes perm False)
               (sortSlice perm (if isRoot then firstSeg else lastSeg) cs))"
  by pat_completeness auto

termination
proof (relation "measure (\<lambda>(perm, isRoot, n). size n)")
  show "wf (measure (\<lambda>(perm, isRoot, n). size n))" by simp
next
  fix perm :: "int list \<Rightarrow> nat list" and isRoot :: bool and b :: Block
    and cs :: "Node list" and x :: Node
  assume "x \<in> set (sortSlice perm (if isRoot then firstSeg else lastSeg) cs)"
  then have "x \<in> set cs"
    by (auto simp: sortSlice_def split: if_splits)
  then have "size x \<le> size_list size cs"
    by (induction cs) auto
  then show "((perm, False, x), (perm, isRoot, Node b cs)) \<in> measure (\<lambda>(perm, isRoot, n). size n)"
    by simp
qed

definition buildTree :: "(int list \<Rightarrow> nat list) \<Rightarrow> Block list \<Rightarrow> Node option" where
  "buildTree perm blocks =
     (if length blocks = 0 then None
      else map_option (sortNodes perm True) (attachAll blocks (Node rootBlock []) ['''']))"

text \<open>\<open>New\<close> returns the tree (or nil) and an error that is always nil.\<close>

definition New :: "(int list \<Rightarrow> nat list) \<Rightarrow> string \<Rightarrow> Node option \<times> string option" where
  "New perm content = (buildTree perm (parseBlocks content), None)"

section \<open>Package path/filepath (Unix)\<close>

text \<open>
  \<open>filepath.Clean\<close>: the path is cut at the separators; empty elements and \<open>.\<close> are
  dropped, \<open>..\<close> removes the element before it (or is dropped at the root, or kept at
  the front of a relative path); the empty result is \<open>.\<close>.
\<close>

fun cleanElems :: "string list \<Rightarrow> bool \<Rightarrow> string list \<Rightarrow> string list" where
  "cleanElems [] rooted out = rev out"
| "cleanElems (e # es) rooted out =
     (if e = [] \<or> e = ''.'' then cleanElems es rooted out
      else if e = ''..'' then
        (case out of
           e' # rest \<Rightarrow>
             if e' \<noteq> ''..'' then cleanElems es rooted rest
             else cleanElems es rooted (e # out)
         | [] \<Rightarrow> if rooted then cleanElems es rooted out else cleanElems es rooted (e # out))
      else cleanElems es rooted (e # out))"

definition Clean :: "string \<Rightarrow> string" where
  "Clean path =
     (if path = [] then ''.''
      else (let rooted = (hd path = CHR ''/'');
                r = (if rooted then ''/'' else []) @
                    Join (cleanElems (Split path CHR ''/'') rooted []) ''/''
            in if r = [] then ''.'' else r))"

text \<open>\<open>filepath.Join\<close>: empty elements are ignored and the result is cleaned.\<close>

definition FilepathJoin :: "string list \<Rightarrow> string" where
  "FilepathJoin elems =
     (let ne = filter (\<lambda>e. e \<noteq> []) elems
      in if ne = [] then [] else Clean (Join ne ''/''))"

text \<open>\<open>filepath.Ext\<close>: the suffix from the last dot of the last path element.\<close>

definition Ext :: "string \<Rightarrow> string" where
  "Ext path =
     (let lastRev = takeWhile (\<lambda>c. c \<noteq> CHR ''/'') (rev path)
      in if CHR ''.'' \<in> set lastRev
         then CHR ''.'' # rev (takeWhile (\<lambda>c. c \<noteq> CHR ''.'') lastRev)
         else [])"

section \<open>Package storage\<close>

text \<open>
  The file system is the environment of the program. It is modelled by three functions
  that the build does not change: \<open>fsReadFile\<close> (\<open>os.ReadFile\<close>: the content, or the
  text of the error), \<open>fsWalk\<close> (\<open>filepath.Walk\<close> of a directory: the paths, relative
  to the directory, of the files that are not directories, in walk order, or the text
  of the error given to the walk function) and \<open>fsWrite\<close> (\<open>os.MkdirAll\<close> of the
  directory followed by \<open>os.WriteFile\<close>: the text of the error, if any).
\<close>

record Storage =
  sourcePath :: string
  targetPath :: string
  fsReadFile :: "string \<Rightarrow> string + string"
  fsWalk :: "string \<Rightarrow> string + string list"
  fsWrite :: "string \<Rightarrow> string \<Rightarrow> string option"

definition ReadBlueprint :: "Storage \<Rightarrow> string \<Rightarrow> string + string" where
  "ReadBlueprint s path = fsReadFile s (FilepathJoin [sourcePath s, ''blueprints'', path])"

definition ReadComponent :: "Storage \<Rightarrow> string \<Rightarrow> string \<Rightarrow> string + string" where
  "ReadComponent s componentPath filename =
     fsReadFile s (FilepathJoin [sourcePath s, ''components'', componentPath, filename])"

text \<open>
  \<open>ListComponentFiles\<close>. The walk function tests the extension of the walked path
  and returns the path relative to the directory. \<open>filepath.Walk\<close> walks the path
  \<open>dir\<close> itself and, below it, the paths \<open>filepath.Join(dir, rel)\<close>; the path
  \<open>dir\<close> has the relative path \<open>.\<close>, which joined to \<open>dir\<close> gives \<open>dir\<close> again. So
  when \<open>dir\<close> is a file and not a directory, its own extension is tested and the
  file is listed as \<open>.\<close>.
\<close>

definition ListComponentFiles :: "Storage \<Rightarrow> string \<Rightarrow> string \<Rightarrow> string + string list" where
  "ListComponentFiles s componentPath ext =
     (let dir = FilepathJoin [sourcePath s, ''components'', componentPath] in
      case fsWalk s dir of
        Inl err \<Rightarrow> Inl (''listing component files: walking component files: '' @ err)
      | Inr rels \<Rightarrow>
          Inr (filter (\<lambda>rel. \<not> (ext \<noteq> [] \<and> Ext (FilepathJoin [dir, rel]) \<noteq> ext)) rels))"

definition FindTemplateFile :: "Storage \<Rightarrow> string \<Rightarrow> string + string" where
  "FindTemplateFile s componentPath =
     (case ListComponentFiles s componentPath ''.html'' of
        Inl err \<Rightarrow> Inl (''listing HTML files: '' @ err)
      | Inr files \<Rightarrow>
          if length files = 0
          then Inl (''no HTML template found in component '' @ componentPath)
          else if length files > 1
          then Inl (''multiple HTML templates found in component '' @ componentPath)
          else Inr (files ! 0))"

text \<open>
  \<open>WriteOutput\<close> writes the files one by one and stops at the first error. The files
  come as an association list with distinct keys (Go enumerates the map in an order of
  its own). The result is the error, if any, and the writes that were done.
\<close>

fun WriteOutput ::
  "Storage \<Rightarrow> string \<Rightarrow> (string \<times> string) list \<Rightarrow> string option \<times> (string \<times> string) list"
where
  "WriteOutput s outputPath [] = (None, [])"
| "WriteOutput s outputPath ((path, content) # rest) =
     (let fullPath = FilepathJoin [outputPath, path] in
      case fsWrite s fullPath content of
        Some err \<Rightarrow> (Some err, [])
      | None \<Rightarrow>
          (case WriteOutput s outputPath rest of
             (res, written) \<Rightarrow> (res, (fullPath, content) # written)))"

section \<open>Package component\<close>

text \<open>
  \<open>Scripts\<close> is a Go map; it is enumerated by \<open>ProcessComponent\<close>, so it is kept as an
  association list with distinct keys, whose order stands for the order of that
  enumeration (which Go leaves open). The field \<open>Children\<close> of the Go struct is
  allocated and never used; it is left out.
\<close>

record Component =
  CompPath :: string
  Template :: string
  Styles :: string
  Scripts :: "(string \<times> string) list"

record Registry =
  loaded :: "string \<rightharpoonup> Component"

text \<open>
  The calls of the storage made by the registry are recorded in a trace, so that the
  reads of a \<open>Load\<close> can be counted.
\<close>

datatype StoreCall =
  FindTemplateFileCall string
| ReadComponentCall string string
| ListComponentFilesCall string string

definition component_New :: Registry where
  "component_New = \<lparr>loaded = Map.empty\<rparr>"

text \<open>The loop of \<open>Load\<close> over the CSS files.\<close>

fun loadCSS ::
  "Storage \<Rightarrow> string \<Rightarrow> string list \<Rightarrow> string \<Rightarrow> StoreCall list
     \<Rightarrow> (string + string) \<times> StoreCall list"
where
  "loadCSS s fsPath [] cssContent tr = (Inr cssContent, tr)"
| "loadCSS s fsPath (file # rest) cssContent tr =
     (case ReadComponent s fsPath file of
        Inl err \<Rightarrow>
          (Inl (''reading CSS '' @ file @ '': '' @ err), tr @ [ReadComponentCall fsPath file])
      | Inr content \<Rightarrow>
          loadCSS s fsPath rest (cssContent @ content @ [CHR 0x0A])
            (tr @ [ReadComponentCall fsPath file]))"

text \<open>The loop of \<open>Load\<close> over the JS files.\<close>

fun loadJS ::
  "Storage \<Rightarrow> string \<Rightarrow> string list \<Rightarrow> (string \<times> string) list \<Rightarrow> StoreCall list
     \<Rightarrow> (string + (string \<times> string) list) \<times> StoreCall list"
where
  "loadJS s fsPath [] scripts tr = (Inr scripts, tr)"
| "loadJS s fsPath (file # rest) scripts tr =
     (case ReadComponent s fsPath file of
        Inl err \<Rightarrow>
          (Inl (''reading JS '' @ file @ '': '' @ err), tr @ [ReadComponentCall fsPath file])
      | Inr content \<Rightarrow>
          loadJS s fsPath rest (AList.update file content scripts)
            (tr @ [ReadComponentCall fsPath file]))"

text \<open>
  \<open>Registry.Load\<close>, on the state made of the registry and the trace of storage calls.
  \<open>Inl\<close> is the returned error.
\<close>

definition Load ::
  "Storage \<Rightarrow> string \<Rightarrow> Registry \<times> StoreCall list
     \<Rightarrow> (string + Component) \<times> (Registry \<times> StoreCall list)"
where
  "Load s path st =
     (case st of (r, tr) \<Rightarrow>
      (case loaded r path of
         Some cmpt \<Rightarrow> (Inr cmpt, (r, tr))
       | None \<Rightarrow>
          (let fsPath = FilepathJoin (Split path CHR ''.'');
               tr1 = tr @ [FindTemplateFileCall fsPath]
           in case FindTemplateFile s fsPath of
                Inl err \<Rightarrow> (Inl (''finding template: '' @ err), (r, tr1))
              | Inr templateFile \<Rightarrow>
                 (let tr2 = tr1 @ [ReadComponentCall fsPath templateFile] in
                  case ReadComponent s fsPath templateFile of
                    Inl err \<Rightarrow> (Inl err, (r, tr2))
                  | Inr template \<Rightarrow>
                     (let tr3 = tr2 @ [ListComponentFilesCall fsPath ''.css''] in
                      case ListComponentFiles s fsPath ''.css'' of
                        Inl err \<Rightarrow> (Inl (''listing CSS files: '' @ err), (r, tr3))
                      | Inr cssFiles \<Rightarrow>
                         (case loadCSS s fsPath cssFiles [] tr3 of
                            (Inl err, tr4) \<Rightarrow> (Inl err, (r, tr4))
                          | (Inr styles, tr4) \<Rightarrow>
                             (let tr5 = tr4 @ [ListComponentFilesCall fsPath ''.js''] in
                              case ListComponentFiles s fsPath ''.js'' of
                                Inl err \<Rightarrow> (Inl (''listing JS files: '' @ err), (r, tr5))
                              | Inr jsFiles \<Rightarrow>
                                 (case loadJS s fsPath jsFiles [] tr5 of
                                    (Inl err, tr6) \<Rightarrow> (Inl err, (r, tr6))
                                  | (Inr scripts, tr6) \<Rightarrow>
                                     (let cmpt = \<lparr>CompPath = path, Template = template,
                                                  Styles = styles, Scripts = scripts\<rparr>
                                      in (Inr cmpt,
                                          (r\<lparr>loaded := (loaded r)(path \<mapsto> cmpt)\<rparr>, tr6)))))))))))"

text \<open>\<open>Registry.Get\<close> reads the cache; on the same state as \<open>Load\<close> it changes nothing.\<close>

definition Get :: "Registry \<Rightarrow> string \<Rightarrow> Component option" where
  "Get r path = loaded r path"

definition GetSt ::
  "string \<Rightarrow> Registry \<times> StoreCall list \<Rightarrow> Component option \<times> (Registry \<times> StoreCall list)"
where
  "GetSt path st = (Get (fst st) path, st)"

section \<open>Package assets\<close>

record jsAsset =
  content :: string
  files :: "string list"

text \<open>
  The maps \<open>css\<close> and \<open>js\<close> are association lists with distinct keys, read with
  \<open>map_of\<close> and written with \<open>AList.update\<close>; \<open>len\<close> of the map is the length of the
  list.
\<close>

record Manager =
  css :: "(string \<times> string) list"
  cssKeys :: "string list"
  js :: "(string \<times> jsAsset) list"
  jsKeys :: "string list"

definition assets_New :: Manager where
  "assets_New = \<lparr>css = [], cssKeys = [], js = [], jsKeys = []\<rparr>"

text \<open>
  \<open>generateHash\<close> is the hexadecimal SHA-256 digest of the content. SHA-256 is not
  part of the repository: the digest is a parameter \<open>H\<close> of every function that hashes.
\<close>

definition generateHash :: "(string \<Rightarrow> string) \<Rightarrow> string \<Rightarrow> string" where
  "generateHash H content' = H content'"

definition alnum :: "char \<Rightarrow> bool" where
  "alnum r = (let b = byte r in
     (97 \<le> b \<and> b \<le> 122) \<or> (65 \<le> b \<and> b \<le> 90) \<or> (48 \<le> b \<and> b \<le> 57))"

lemma HasPrefix_append: "HasPrefix s p \<Longrightarrow> s = p @ drop (length p) s"
  by (induction s p rule: HasPrefix.induct) auto

lemma ReplaceAll_length_le:
  "length new \<le> length old \<Longrightarrow> length (ReplaceAll s old new) \<le> length s"
proof (induction s old new rule: ReplaceAll.induct)
  case (1 s old new)
  show ?case
  proof (cases "s = [] \<or> old = []")
    case True
    then show ?thesis by (simp add: ReplaceAll.simps)
  next
    case False
    show ?thesis
    proof (cases "HasPrefix s old")
      case True
      have "length (ReplaceAll (drop (length old) s) old new) \<le> length s - length old"
        using 1(1) [OF False True 1(3)] by simp
      moreover have "length old \<le> length s"
        using HasPrefix_append [OF True] by (metis length_append le_add1)
      ultimately show ?thesis
        using False True 1(3) by (subst ReplaceAll.simps) simp
    next
      case nopre: False
      have "length (ReplaceAll (tl s) old new) \<le> length s - 1"
        using 1(2) [OF False nopre 1(3)] by simp
      moreover have "0 < length s" using False by simp
      ultimately have "Suc (length (ReplaceAll (tl s) old new)) \<le> length s" by arith
      then show ?thesis
        using False nopre by (subst ReplaceAll.simps) simp
    qed
  qed
qed

lemma ReplaceAll_length_less:
  "length new < length old \<Longrightarrow> Contains s old \<Longrightarrow> length (ReplaceAll s old new) < length s"
proof (induction s old new rule: ReplaceAll.induct)
  case (1 s old new)
  have old: "old \<noteq> []" using 1(3) by auto
  have s: "s \<noteq> []" using 1(4) old by (cases s) (auto simp: Contains_def)
  show ?case
  proof (cases "HasPrefix s old")
    case True
    have "length (ReplaceAll (drop (length old) s) old new) \<le> length s - length old"
      using ReplaceAll_length_le [of new old "drop (length old) s"] 1(3) by simp
    moreover have "length old \<le> length s"
      using HasPrefix_append [OF True] by (metis length_append le_add1)
    ultimately show ?thesis
      using s old True 1(3) by (subst ReplaceAll.simps) simp
  next
    case False
    obtain x xs where sx: "s = x # xs" using s by (cases s) auto
    have "Contains (tl s) old"
      using 1(4) False sx by (auto simp: Contains_def split: if_splits)
    then have "length (ReplaceAll (tl s) old new) < length (tl s)"
      using 1(2) s old False 1(3) by simp
    then show ?thesis
      using s old False by (subst ReplaceAll.simps) (simp add: sx)
  qed
qed

text \<open>The loop of \<open>sanitizeFileName\<close> that removes consecutive dashes.\<close>

function collapseDashes :: "string \<Rightarrow> string" where
  "collapseDashes name =
     (if Contains name ''--'' then collapseDashes (ReplaceAll name ''--'' ''-'') else name)"
  by pat_completeness auto
termination
  by (relation "measure length") (simp_all add: ReplaceAll_length_less)

declare collapseDashes.simps [simp del]

text \<open>
  \<open>sanitizeFileName\<close>. \<open>strings.Map\<close> replaces each code point that is not an ASCII
  letter or digit by one dash; the model replaces each of its bytes by a dash, which
  gives the same name once consecutive dashes are collapsed.
\<close>

definition sanitizeFileName :: "string \<Rightarrow> string" where
  "sanitizeFileName path =
     Trim (collapseDashes (map (\<lambda>r. if alnum r then r else CHR ''-'') path)) CHR ''-''"

text \<open>The body of the loop of \<open>ProcessComponent\<close> over the scripts of the component.\<close>

definition processScript ::
  "(string \<Rightarrow> string) \<Rightarrow> string \<Rightarrow> string \<times> string \<Rightarrow> Manager \<Rightarrow> Manager"
where
  "processScript H compPath script m =
     (case script of (origName, content') \<Rightarrow>
      (let hash = generateHash H content';
           baseName = TrimSuffix origName ''.js'';
           outName = sanitizeFileName compPath @ ''-'' @ baseName
       in case map_of (js m) hash of
            Some asset \<Rightarrow>
              m\<lparr>js := AList.update hash (asset\<lparr>files := files asset @ [outName]\<rparr>) (js m)\<rparr>
          | None \<Rightarrow>
              m\<lparr>js := AList.update hash \<lparr>content = content', files = [outName]\<rparr> (js m),
                jsKeys := jsKeys m @ [hash]\<rparr>))"

text \<open>\<open>ProcessComponent\<close>: the returned error is always nil.\<close>

definition ProcessComponent ::
  "(string \<Rightarrow> string) \<Rightarrow> Component option \<Rightarrow> Manager \<Rightarrow> string option \<times> Manager"
where
  "ProcessComponent H cmpt m =
     (case cmpt of
        None \<Rightarrow> (None, m)
      | Some c \<Rightarrow>
          (let m1 = (if length (Styles c) > 0
                     then (let hash = generateHash H (Styles c) in
                           if map_of (css m) hash = None
                           then m\<lparr>css := AList.update hash (Styles c) (css m),
                                  cssKeys := cssKeys m @ [hash]\<rparr>
                           else m)
                     else m)
           in (None, fold (processScript H (CompPath c)) (Scripts c) m1)))"

text \<open>
  \<open>GetAssetTags\<close>. The Go loop enumerates the map \<open>js\<close> in an order that the runtime
  chooses; \<open>ord\<close> is that order, a list of the keys of \<open>js\<close>.
\<close>

definition scriptTag :: "string \<Rightarrow> string \<Rightarrow> string" where
  \<open>scriptTag prefix filename =
     ''<script src="'' @ FilepathJoin [prefix, ''js'', sanitizeFileName filename @ ''.js'']
       @ ''"></script>'' @ [CHR 0x0A]\<close>

definition GetAssetTags :: "Manager \<Rightarrow> string list \<Rightarrow> string \<Rightarrow> string \<times> string" where
  \<open>GetAssetTags m ord prefix =
     (let styles = (if length (css m) > 0
                    then ''<link rel="stylesheet" href="''
                           @ FilepathJoin [prefix, ''css'', ''styles.css''] @ ''">''
                    else []);
          jsB = concat (map (\<lambda>hash. case map_of (js m) hash of
                                       None \<Rightarrow> []
                                     | Some asset \<Rightarrow>
                                         concat (map (scriptTag prefix) (files asset)))
                            ord)
      in (styles, TrimSpace jsB))\<close>

text \<open>\<open>GetFiles\<close>: the result map as an association list with distinct keys.\<close>

definition GetFiles :: "Manager \<Rightarrow> (string \<times> string) list" where
  "GetFiles m =
     (let files0 =
            (if length (css m) > 0
             then [(''styles.css'',
                    TrimSuffix
                      (concat (map (\<lambda>hash. case map_of (css m) hash of
                                              Some c \<Rightarrow> c @ [CHR 0x0A]
                                            | None \<Rightarrow> [])
                                   (cssKeys m)))
                      [CHR 0x0A])]
             else [])
      in fold (\<lambda>hash fs. case map_of (js m) hash of
                            Some asset \<Rightarrow>
                              fold (\<lambda>filename. AList.update (sanitizeFileName filename @ ''.js'')
                                                 (content asset))
                                   (files asset) fs
                          | None \<Rightarrow> fs)
              (jsKeys m) files0)"

section \<open>Package template: the tokenizer\<close>

datatype TokenType =
  TextToken
| RangeStartToken
| RangeEndToken
| VarToken
| ComponentToken
| StyleToken
| ScriptToken

record Token =
  Type :: TokenType
  Content :: string

definition textToken :: "string \<Rightarrow> Token" where
  "textToken s = \<lparr>Type = TextToken, Content = s\<rparr>"

text \<open>The \<open>switch\<close> of \<open>Tokenize\<close>: the token of a directive, none for an unknown one.\<close>

definition directiveTokens :: "string \<Rightarrow> Token list" where
  "directiveTokens directive' =
     (if directive' = ''component'' then [\<lparr>Type = ComponentToken, Content = []\<rparr>]
      else if directive' = ''range end'' then [\<lparr>Type = RangeEndToken, Content = []\<rparr>]
      else if HasPrefix directive' ''range .''
        then [\<lparr>Type = RangeStartToken, Content = TrimPrefix directive' ''range .''\<rparr>]
      else if directive' = ''styles'' then [\<lparr>Type = StyleToken, Content = []\<rparr>]
      else if directive' = ''script'' then [\<lparr>Type = ScriptToken, Content = []\<rparr>]
      else if HasPrefix directive' ''.''
        then [\<lparr>Type = VarToken, Content = TrimPrefix directive' ''.''\<rparr>]
      else [])"

text \<open>The code after the loop of \<open>Tokenize\<close>: the remaining text, if any.\<close>

definition remainingText :: "string \<Rightarrow> Token list" where
  "remainingText template = (if length template > 0 then [textToken template] else [])"

text \<open>
  The loop of \<open>Tokenize\<close> on the state \<open>(t.template, t.pos, t.tokens)\<close>; the result is
  the returned token list. After the \<open>break\<close> of an unterminated directive the code
  after the loop runs too, on the same remaining text.
\<close>

function tokenizeLoop :: "string \<Rightarrow> nat \<Rightarrow> Token list \<Rightarrow> Token list" where
  "tokenizeLoop template pos tokens =
     (if pos < length template then
        (if template ! pos = CHR ''{'' \<and> pos + 1 < length template
            \<and> template ! (pos + 1) = CHR ''{''
         then
           (let flush = (pos > 0 \<and> length template > 0);
                tokens1 = (if flush then tokens @ [textToken (take pos template)] else tokens);
                template1 = (if flush then drop pos template else template)
            in case bytesIndex (drop 2 template1) ''}}'' of
                 None \<Rightarrow> (tokens1 @ [textToken template1]) @ remainingText template1
               | Some end' \<Rightarrow>
                   tokenizeLoop (drop (end' + 4) template1) 0
                     (tokens1 @ directiveTokens (TrimSpace (take end' (drop 2 template1)))))
         else tokenizeLoop template (pos + 1) tokens)
      else tokens @ remainingText template)"
  by pat_completeness auto
termination
  by (relation "measures [\<lambda>(t, p, ts). length t, \<lambda>(t, p, ts). length t - p]") auto

declare tokenizeLoop.simps [simp del]

definition Tokenize :: "string \<Rightarrow> Token list" where
  "Tokenize template = tokenizeLoop template 0 []"

section \<open>Package template: the processor\<close>

record processError =
  line :: int
  directive :: string
  msg :: string

text \<open>The field \<open>vars\<close> of the Go struct is allocated and never used; it is left out.\<close>

record Processor =
  registry :: Registry
  assets :: Manager
  errLines :: "processError list"
  hasStyles :: bool
  hasScripts :: bool

definition template_New :: "Registry \<Rightarrow> Processor" where
  "template_New r =
     \<lparr>registry = r, assets = assets_New, errLines = [], hasStyles = False, hasScripts = False\<rparr>"

definition addError :: "int \<Rightarrow> string \<Rightarrow> string \<Rightarrow> Processor \<Rightarrow> Processor" where
  "addError ln dir m p =
     (if list_ex (\<lambda>err. line err = ln \<and> directive err = dir) (errLines p) then p
      else p\<lparr>errLines := errLines p @ [\<lparr>line = ln, directive = dir, msg = m\<rparr>]\<rparr>)"

definition processAssets ::
  "(string \<Rightarrow> string) \<Rightarrow> Component \<Rightarrow> string \<Rightarrow> Processor \<Rightarrow> Processor"
where
  "processAssets H cmpt path p =
     (case ProcessComponent H (Some cmpt) (assets p) of
        (Some err, m) \<Rightarrow>
          addError 0 path (''asset error in '' @ path @ '': '' @ err) (p\<lparr>assets := m\<rparr>)
      | (None, m) \<Rightarrow> p\<lparr>assets := m\<rparr>)"

text \<open>The local variables of \<open>processTemplate\<close>.\<close>

record loopState =
  buf :: string
  rangeVar :: string
  rangeContent :: "string list"
  inRange :: bool
  rangeStart :: int

definition initLoop :: loopState where
  "initLoop = \<lparr>buf = [], rangeVar = [], rangeContent = [], inRange = False, rangeStart = - 1\<rparr>"

text \<open>
  The inner loops of the \<open>RangeEndToken\<close> case: what one token of the body writes for
  the value \<open>rangeValue\<close>, and the text of one iteration.
\<close>

definition rangeTokenText ::
  "(string \<rightharpoonup> string list) \<Rightarrow> string \<Rightarrow> string \<Rightarrow> Token \<Rightarrow> string"
where
  "rangeTokenText vars rvar rangeValue t =
     (case Type t of
        TextToken \<Rightarrow> Content t
      | VarToken \<Rightarrow>
          (if Content t = rvar then rangeValue
           else (case vars (Content t) of
                   Some values \<Rightarrow> if length values > 0 then values ! 0 else []
                 | None \<Rightarrow> []))
      | _ \<Rightarrow> [])"

definition renderRange ::
  "(string \<rightharpoonup> string list) \<Rightarrow> string \<Rightarrow> Token list \<Rightarrow> string \<Rightarrow> string"
where
  "renderRange vars rvar body rangeValue = concat (map (rangeTokenText vars rvar rangeValue) body)"

text \<open>
  The slice \<open>tokens[lo:hi]\<close>, for \<open>0 \<le> lo \<le> hi \<le> len(tokens)\<close>; outside
  these bounds Go panics, which \<open>tokenStep\<close> checks before it takes the slice.
\<close>

definition slice :: "'a list \<Rightarrow> int \<Rightarrow> nat \<Rightarrow> 'a list" where
  "slice xs lo hi = take (hi - nat lo) (drop (nat lo) xs)"

text \<open>
  The body of the loop of \<open>processTemplate\<close> for the token at index \<open>i\<close>. The state is the
  local variables and the processor. \<open>kids\<close> is the loop of the \<open>ComponentToken\<close> case,
  which processes the children and returns what they write. \<open>None\<close> is a panic:
  \<open>values[0]\<close> on an empty sequence (index out of range), or the slice
  \<open>tokens[rangeStart+1 : i]\<close> out of bounds.
\<close>

definition tokenStep ::
  "(Processor \<Rightarrow> (string \<times> Processor) option) \<Rightarrow> (string \<rightharpoonup> string list) \<Rightarrow> Token list
     \<Rightarrow> nat \<times> Token \<Rightarrow> loopState \<times> Processor \<Rightarrow> (loopState \<times> Processor) option"
where
  "tokenStep kids vars tokens it st =
     (case it of (i, token) \<Rightarrow>
      case st of (ls, p) \<Rightarrow>
      (case Type token of
         TextToken \<Rightarrow>
           if \<not> inRange ls then Some (ls\<lparr>buf := buf ls @ Content token\<rparr>, p) else Some (ls, p)
       | StyleToken \<Rightarrow> Some (ls, p\<lparr>hasStyles := True\<rparr>)
       | ScriptToken \<Rightarrow> Some (ls, p\<lparr>hasScripts := True\<rparr>)
       | ComponentToken \<Rightarrow>
           if \<not> inRange ls then
             (case kids p of
                None \<Rightarrow> None
              | Some (out, p') \<Rightarrow> Some (ls\<lparr>buf := buf ls @ out\<rparr>, p'))
           else Some (ls, p)
       | RangeStartToken \<Rightarrow>
           if \<not> inRange ls then
             Some (ls\<lparr>inRange := True, rangeVar := Content token, rangeStart := int i,
                      rangeContent := (case vars (Content token) of
                                         Some values \<Rightarrow> values
                                       | None \<Rightarrow> rangeContent ls)\<rparr>, p)
           else Some (ls, p)
       | RangeEndToken \<Rightarrow>
           if inRange ls then
             (if rangeStart ls + 1 < 0 \<or> int i < rangeStart ls + 1 \<or> length tokens < i
              then None
              else Some (ls\<lparr>buf := buf ls @
                                   concat (map (renderRange vars (rangeVar ls)
                                                  (slice tokens (rangeStart ls + 1) i))
                                               (rangeContent ls)),
                           inRange := False, rangeStart := - 1\<rparr>, p))
           else Some (ls, p)
       | VarToken \<Rightarrow>
           if \<not> inRange ls then
             (case vars (Content token) of
                Some values \<Rightarrow>
                  (case values of
                     [] \<Rightarrow> None
                   | v # _ \<Rightarrow> Some (ls\<lparr>buf := buf ls @ v\<rparr>, p))
              | None \<Rightarrow> Some (ls, p))
           else Some (ls, p)))"

text \<open>A loop whose body may panic: the first panic ends it.\<close>

fun forEach :: "('a \<Rightarrow> 's \<Rightarrow> 's option) \<Rightarrow> 'a list \<Rightarrow> 's \<Rightarrow> 's option" where
  "forEach f [] s = Some s"
| "forEach f (x # xs) s = (case f x s of None \<Rightarrow> None | Some s' \<Rightarrow> forEach f xs s')"

text \<open>
  The loop \<open>for i, token := range tokens\<close> of \<open>processTemplate\<close>, from the initial local
  variables, and the returned buffer.
\<close>

definition runTokens ::
  "(Processor \<Rightarrow> (string \<times> Processor) option) \<Rightarrow> (string \<rightharpoonup> string list) \<Rightarrow> Token list
     \<Rightarrow> Processor \<Rightarrow> (string \<times> Processor) option"
where
  "runTokens kids vars tokens p =
     (case forEach (tokenStep kids vars tokens) (enumerate 0 tokens) (initLoop, p) of
        None \<Rightarrow> None
      | Some (ls, p') \<Rightarrow> Some (buf ls, p'))"

definition errorText :: "processError \<Rightarrow> string" where
  "errorText err = ''line '' @ Itoa (line err) @ '' ['' @ directive err @ '']: '' @ msg err"

text \<open>The end of \<open>Process\<close>: the output, with an error when errors have been collected.\<close>

definition processResult :: "string \<Rightarrow> Processor \<Rightarrow> (string \<times> string option) \<times> Processor" where
  "processResult output p =
     (if length (errLines p) > 0
      then ((output, Some (''template processing errors: ''
                             @ Join (map errorText (errLines p)) ''; '')), p)
      else ((output, None), p))"

fun nodeWeight :: "Node option \<Rightarrow> nat" where
  "nodeWeight None = 0"
| "nodeWeight (Some n) = 3 * size n"

text \<open>
  \<open>Process\<close>, \<open>processChildren\<close> and \<open>processTemplate\<close>. \<open>processEach\<close> is the loop
  \<open>for _, child := range children\<close> that \<open>processChildren\<close> and the \<open>ComponentToken\<close>
  case both run: every child is processed, its error is dropped and its output is
  appended to the buffer. The result \<open>None\<close> is a panic.
\<close>

function
  Process ::
    "(string \<Rightarrow> string) \<Rightarrow> Node option \<Rightarrow> Processor
       \<Rightarrow> ((string \<times> string option) \<times> Processor) option"
  and processChildren ::
    "(string \<Rightarrow> string) \<Rightarrow> Node \<Rightarrow> Processor \<Rightarrow> (string \<times> Processor) option"
  and processEach ::
    "(string \<Rightarrow> string) \<Rightarrow> Node list \<Rightarrow> Processor \<Rightarrow> (string \<times> Processor) option"
  and processTemplate ::
    "(string \<Rightarrow> string) \<Rightarrow> string \<Rightarrow> (string \<rightharpoonup> string list) \<Rightarrow> Node list \<Rightarrow> Processor
       \<Rightarrow> (string \<times> Processor) option"
where
  "Process H None p = Some (([], None), p)"
| "Process H (Some (Node b cs)) p =
     (if ID b = - 1 then
        (case processChildren H (Node b cs) p of
           None \<Rightarrow> None
         | Some (output, p1) \<Rightarrow> Some (processResult output p1))
      else
        (case Get (registry p) (Path b) of
           None \<Rightarrow>
             Some ((''{{'' @ Path b @ ''}}'', None),
                   addError 0 (Path b) (''component not found: '' @ Path b) p)
         | Some cmpt \<Rightarrow>
             (case processTemplate H (Template cmpt) (Vars b) cs
                     (processAssets H cmpt (Path b) p) of
                None \<Rightarrow> None
              | Some (output, p2) \<Rightarrow> Some (processResult output p2))))"
| "processChildren H (Node b cs) p = processEach H cs p"
| "processEach H [] p = Some ([], p)"
| "processEach H (child # rest) p =
     (case Process H (Some child) p of
        None \<Rightarrow> None
      | Some ((childContent, err), p1) \<Rightarrow>
          (case processEach H rest p1 of
             None \<Rightarrow> None
           | Some (out, p2) \<Rightarrow> Some (childContent @ out, p2)))"
| "processTemplate H tmpl vars children p =
     runTokens (\<lambda>q. processEach H children q) vars (Tokenize tmpl) p"
  by pat_completeness auto
termination
  by (relation "measure (\<lambda>x. case x of
         Inl (Inl (H, n, p)) \<Rightarrow> nodeWeight n
       | Inl (Inr (H, n, p)) \<Rightarrow> 3 * size n - 1
       | Inr (Inl (H, cs, p)) \<Rightarrow> 3 * size_list size cs + 1
       | Inr (Inr (H, tmpl, vars, cs, p)) \<Rightarrow> 3 * size_list size cs + 2)")
     auto

text \<open>\<open>GetUsedComponents\<close>: every loaded component is cached under its own path.\<close>

definition GetUsedComponents :: "Processor \<Rightarrow> (string \<rightharpoonup> string)" where
  "GetUsedComponents p =
     (\<lambda>path. map_option (\<lambda>cmpt. ReplaceAll (CompPath cmpt) ''.'' ''/'')
                (loaded (registry p) path))"

record ProcessResult =
  HTML :: string
  Files :: "(string \<times> string) list"
  Components :: "string \<rightharpoonup> string"

text \<open>
  \<open>Assembler\<close>. \<open>None\<close> is a panic, \<open>Inl\<close> the returned error. \<open>ord\<close> is the order in
  which \<open>GetAssetTags\<close> enumerates the scripts.
\<close>

definition Assembler ::
  "(string \<Rightarrow> string) \<Rightarrow> string list \<Rightarrow> Node option \<Rightarrow> Processor
     \<Rightarrow> ((string + ProcessResult) \<times> Processor) option"
where
  "Assembler H ord node p =
     (case Process H node p of
        None \<Rightarrow> None
      | Some ((html, err), p1) \<Rightarrow>
          (case err of
             Some e \<Rightarrow> Some (Inl (''processing template: '' @ e), p1)
           | None \<Rightarrow>
              (case GetAssetTags (assets p1) ord [] of
                 (stylesTag, scriptTags) \<Rightarrow>
                  (let html1 = (if hasStyles p1 then ReplaceAll html ''{{styles}}'' stylesTag
                                else html);
                       finalBuf0 = (if \<not> hasStyles p1 \<and> stylesTag \<noteq> [] then stylesTag
                                    else []);
                       finalBuf1 = finalBuf0 @ html1;
                       finalBuf2 = (if hasScripts p1
                                    then ReplaceAll finalBuf1 ''{{script}}'' scriptTags
                                    else if scriptTags \<noteq> [] then finalBuf1 @ scriptTags
                                    else finalBuf1)
                   in Some (Inr \<lparr>HTML = finalBuf2, Files = GetFiles (assets p1),
                                 Components = GetUsedComponents p1\<rparr>, p1)))))"

section \<open>Package builder\<close>

text \<open>
  \<open>loadComponents\<close>, the closure of \<open>processBlueprint\<close>, with \<open>loadEach\<close> for its loop
  over the children. \<open>Some err\<close> is the returned error.
\<close>

fun
  loadComponents ::
    "Storage \<Rightarrow> Node \<Rightarrow> Registry \<times> StoreCall list
       \<Rightarrow> string option \<times> (Registry \<times> StoreCall list)"
  and loadEach ::
    "Storage \<Rightarrow> Node list \<Rightarrow> Registry \<times> StoreCall list
       \<Rightarrow> string option \<times> (Registry \<times> StoreCall list)"
where
  "loadComponents s (Node b cs) st =
     (if ID b \<noteq> - 1 then
        (case Load s (Path b) st of
           (Inl err, st1) \<Rightarrow> (Some (''loading component '' @ Path b @ '': '' @ err), st1)
         | (Inr cmpt, st1) \<Rightarrow> loadEach s cs st1)
      else loadEach s cs st)"
| "loadEach s [] st = (None, st)"
| "loadEach s (child # rest) st =
     (case loadComponents s child st of
        (Some err, st1) \<Rightarrow> (Some err, st1)
      | (None, st1) \<Rightarrow> loadEach s rest st1)"

definition loadTree ::
  "Storage \<Rightarrow> Node option \<Rightarrow> Registry \<times> StoreCall list
     \<Rightarrow> string option \<times> (Registry \<times> StoreCall list)"
where
  "loadTree s node st = (case node of None \<Rightarrow> (None, st) | Some n \<Rightarrow> loadComponents s n st)"

text \<open>\<open>Builder.writeOutput\<close>: the files handed to the storage, then \<open>WriteOutput\<close>.\<close>

definition outputFiles :: "string \<Rightarrow> ProcessResult \<Rightarrow> (string \<times> string) list" where
  "outputFiles outputRel result =
     (let outputPath = TrimPrefix outputRel ''blueprints/'' in
      fold (\<lambda>(name, content') fs.
              (let dir = (if Ext name = ''.css'' then ''css''
                          else if Ext name = ''.js'' then ''js''
                          else ''assets'')
               in AList.update (FilepathJoin [dir, name]) content' fs))
           (Files result) [(outputPath @ ''.html'', HTML result)])"

definition writeOutput ::
  "Storage \<Rightarrow> string \<Rightarrow> ProcessResult \<Rightarrow> string option \<times> (string \<times> string) list"
where
  "writeOutput s outputRel result = WriteOutput s (targetPath s) (outputFiles outputRel result)"

text \<open>
  \<open>processBlueprint\<close>. The result is \<open>None\<close> for a panic; otherwise the returned error
  (\<open>None\<close> for nil) and the files written to the storage. The processor holds a pointer
  to the registry, so it sees the components that \<open>loadComponents\<close> has loaded.
\<close>

definition processBlueprint ::
  "(string \<Rightarrow> string) \<Rightarrow> string list \<Rightarrow> (int list \<Rightarrow> nat list) \<Rightarrow> Storage \<Rightarrow> string
     \<Rightarrow> string \<Rightarrow> (string option \<times> (string \<times> string) list) option"
where
  "processBlueprint H ord perm s path outputRel =
     (case ReadBlueprint s path of
        Inl err \<Rightarrow> Some (Some (''reading blueprint: '' @ err), [])
      | Inr content' \<Rightarrow>
          (case New perm content' of
             (tree, Some err) \<Rightarrow> Some (Some (''parsing blueprint: '' @ err), [])
           | (tree, None) \<Rightarrow>
               (case loadTree s tree (component_New, []) of
                  (Some err, st) \<Rightarrow> Some (Some (''loading components: '' @ err), [])
                | (None, (reg, tr)) \<Rightarrow>
                    (case Assembler H ord tree (template_New reg) of
                       None \<Rightarrow> None
                     | Some (Inl err, p) \<Rightarrow> Some (Some (''processing template: '' @ err), [])
                     | Some (Inr result, p) \<Rightarrow>
                         (case writeOutput s outputRel result of
                            (Some err, written) \<Rightarrow>
                              Some (Some (''writing output: '' @ err), written)
                          | (None, written) \<Rightarrow> Some (None, written))))))"

section \<open>Predicates of the claims\<close>

text \<open>Two of the accepted block lines of the text have the same index key.\<close>

definition duplicateIndex :: "string \<Rightarrow> bool" where
  "duplicateIndex content' =
     (\<not> distinct (map (\<lambda>b. indexKey (Index b)) (parseBlocks content')))"

text \<open>
  What Go promises of \<open>sort.Slice\<close>, said of the parameter \<open>perm\<close>: for every list
  of keys it gives every position of the list once, in an order in which the keys
  ascend.
\<close>

definition sortsKeys :: "(int list \<Rightarrow> nat list) \<Rightarrow> bool" where
  "sortsKeys perm =
     (\<forall>ks. set (perm ks) = {..<length ks} \<and> length (perm ks) = length ks
            \<and> sorted (map (\<lambda>i. ks ! i) (perm ks)))"

text \<open>
  The order of the children in a tree: ascending in the first index segment under the
  root, strictly ascending in the last index segment under every other node.
\<close>

fun siblingsSorted :: "bool \<Rightarrow> Node \<Rightarrow> bool" where
  "siblingsSorted isRoot (Node b cs) =
     ((if isRoot then sorted (map firstSeg cs) else sorted_wrt (<) (map lastSeg cs))
      \<and> (\<forall>c \<in> set cs. siblingsSorted False c))"

text \<open>
  The invariant of the attach loop of \<open>buildTree\<close>, for the keys \<open>seen\<close> of \<open>nodeMap\<close>:
  the key of every node below the root is in \<open>nodeMap\<close>, and the children of a node
  other than the root have different keys, non-empty indices, and the key of the node
  as their parent key.
\<close>

definition keyOf :: "Node \<Rightarrow> string" where
  "keyOf n = indexKey (Index (Block n))"

fun attached :: "string list \<Rightarrow> bool \<Rightarrow> Node \<Rightarrow> bool" where
  "attached seen isRoot (Node b cs) =
     ((isRoot \<or> (distinct (map keyOf cs)
                 \<and> (\<forall>c \<in> set cs. Index (Block c) \<noteq> []
                        \<and> indexKey (butlast (Index (Block c))) = indexKey (Index b))))
      \<and> (\<forall>c \<in> set cs. keyOf c \<in> set seen \<and> attached seen False c))"

text \<open>The key of an index in terms of the key of the index without its last segment.\<close>

definition snocKey :: "string \<Rightarrow> int \<Rightarrow> string" where
  "snocKey parentKey l = (if parentKey = [] then Itoa l else parentKey @ ''.'' @ Itoa l)"

text \<open>
  The names of \<open>ProcessComponent\<close> and \<open>GetFiles\<close>: \<open>outName\<close>, the name derived from
  the component path and the script file, and \<open>jsName\<close>, the name of the output file.
\<close>

definition derivedName :: "string \<Rightarrow> string \<Rightarrow> string" where
  "derivedName compPath origName =
     sanitizeFileName compPath @ ''-'' @ TrimSuffix origName ''.js''"

definition jsName :: "string \<Rightarrow> string" where
  "jsName filename = sanitizeFileName filename @ ''.js''"

text \<open>The asset manager after it has processed two components, starting empty.\<close>

definition assetsOfTwo :: "(string \<Rightarrow> string) \<Rightarrow> Component \<Rightarrow> Component \<Rightarrow> Manager" where
  "assetsOfTwo H c1 c2 =
     snd (ProcessComponent H (Some c2) (snd (ProcessComponent H (Some c1) assets_New)))"

text \<open>
  The local variables and the processor when the loop of \<open>processTemplate\<close> has handled
  the first \<open>k\<close> tokens (\<open>None\<close> if it has panicked before).
\<close>

definition stateAfter ::
  "(Processor \<Rightarrow> (string \<times> Processor) option) \<Rightarrow> (string \<rightharpoonup> string list) \<Rightarrow> Token list
     \<Rightarrow> nat \<Rightarrow> Processor \<Rightarrow> (loopState \<times> Processor) option"
where
  "stateAfter kids vars tokens k p =
     forEach (tokenStep kids vars tokens) (take k (enumerate 0 tokens)) (initLoop, p)"

text \<open>
  The text of one iteration of a range body as the claims word it: a text token gives
  its text, a variable token named as the loop variable gives the value of the
  iteration, any other variable token gives the first value bound to its name (nothing
  if the name is not bound or bound to no value), and every other token gives nothing.
\<close>

definition iterationText ::
  "(string \<rightharpoonup> string list) \<Rightarrow> string \<Rightarrow> Token list \<Rightarrow> string \<Rightarrow> string"
where
  "iterationText vars name body v =
     concat (map (\<lambda>t. if Type t = TextToken then Content t
                        else if Type t = VarToken then
                          (if Content t = name then v
                           else (case vars (Content t) of
                                   Some (x # xs) \<Rightarrow> x
                                 | _ \<Rightarrow> []))
                        else [])
                 body)"

text \<open>
  Every name bound in the variable map is bound to a non-empty sequence, in one map and
  in every node of a tree.
\<close>

definition wellVars :: "(string \<rightharpoonup> string list) \<Rightarrow> bool" where
  "wellVars vars = (\<forall>n vs. vars n = Some vs \<longrightarrow> vs \<noteq> [])"

fun treeWellVars :: "Node \<Rightarrow> bool" where
  "treeWellVars (Node b cs) = (wellVars (Vars b) \<and> (\<forall>c \<in> set cs. treeWellVars c))"

text \<open>
  The invariant of the loop of \<open>processTemplate\<close> before the token at index \<open>k\<close>: an
  open range started at an earlier index.
\<close>

definition rangeInv :: "nat \<Rightarrow> loopState \<Rightarrow> bool" where
  "rangeInv k ls = (inRange ls \<longrightarrow> 0 \<le> rangeStart ls \<and> rangeStart ls < int k)"

text \<open>
  What processing keeps: the registry is the same and every collected error is still
  collected.
\<close>

definition keeps :: "Processor \<Rightarrow> Processor \<Rightarrow> bool" where
  "keeps p p' = (registry p' = registry p \<and> set (errLines p) \<subseteq> set (errLines p'))"

section \<open>Example inputs\<close>

text \<open>
  A registry with one component \<open>page\<close>: a template with a styles marker, and one
  stylesheet.
\<close>

definition pageRegistry :: Registry where
  "pageRegistry =
     \<lparr>loaded = [''page'' \<mapsto> \<lparr>CompPath = ''page'', Template = ''<head>{{styles}}</head>'',
                               Styles = ''body{}\<newline>'', Scripts = []\<rparr>]\<rparr>"

text \<open>
  A storage with that component in the files \<open>page.html\<close> and \<open>page.css\<close>, and the
  blueprint \<open>index.blueprint\<close> with the single block \<open>1 page\<close>.
\<close>

definition pageStorage :: Storage where
  "pageStorage =
     \<lparr>sourcePath = ''src'', targetPath = ''out'',
      fsReadFile = (\<lambda>p. if p = ''src/blueprints/index.blueprint'' then Inr ''1 page''
                         else if p = ''src/components/page/page.html''
                           then Inr ''<head>{{styles}}</head>''
                         else if p = ''src/components/page/page.css'' then Inr ''body{}''
                         else Inl ''no such file''),
      fsWalk = (\<lambda>d. if d = ''src/components/page'' then Inr [''page.css'', ''page.html'']
                     else Inl ''no such directory''),
      fsWrite = (\<lambda>p c. None)\<rparr>"

text \<open>A storage whose only file is a blueprint with two block lines of index 1.\<close>

definition dupStorage :: Storage where
  "dupStorage =
     \<lparr>sourcePath = ''src'', targetPath = ''out'',
      fsReadFile = (\<lambda>p. if p = ''src/blueprints/dup.blueprint''
                         then Inr ''1 a\<newline>1 b'' else Inl ''no such file''),
      fsWalk = (\<lambda>d. Inl ''no such directory''),
      fsWrite = (\<lambda>p c. None)\<rparr>"

text \<open>
  A hash function for the closed examples: the content itself. The general theorems
  hold for every hash function.
\<close>

definition idHash :: "string \<Rightarrow> string" where
  "idHash s = s"

text \<open>Two components with the same script content in a file of the same name.\<close>

definition cardComponent :: Component where
  "cardComponent =
     \<lparr>CompPath = ''ui.card'', Template = ''<div>{{component}}</div>'', Styles = [],
      Scripts = [(''hover.js'', ''init();'')]\<rparr>"

definition panelComponent :: Component where
  "panelComponent =
     \<lparr>CompPath = ''ui.panel'', Template = ''<p>{{.text}}</p>'', Styles = [],
      Scripts = [(''hover.js'', ''init();'')]\<rparr>"

text \<open>Variable bindings with a sequence of three values, and two templates with loops.\<close>

definition listVars :: "string \<rightharpoonup> string list" where
  "listVars = [''items'' \<mapsto> [''a'', ''b'', ''c''], ''k'' \<mapsto> [''K'', ''L'']]"

definition loopTemplate :: string where
  "loopTemplate = ''<ul>{{range .items}}<li>{{.items}}:{{.k}}</li>{{range end}}</ul>''"


text \<open>A range block inside a range block.\<close>

definition nestedTemplate :: string where
  "nestedTemplate = ''{{range .k}}{{range .items}}<{{.items}}>{{range end}}{{range end}}''"

definition freshProcessor :: Processor where
  "freshProcessor = template_New component_New"

text \<open>
  A rearrangement for the long slices: the stable one, and the one that puts the later
  of two elements with equal keys first.
\<close>

definition stablePerm :: "int list \<Rightarrow> nat list" where
  "stablePerm ks = sort_key (\<lambda>i. ks ! i) [0..<length ks]"

definition reversePerm :: "int list \<Rightarrow> nat list" where
  "reversePerm ks = sort_key (\<lambda>i. ks ! i) (rev [0..<length ks])"

text \<open>
  A registry with two components and no component \<open>ghost\<close>; three sibling nodes, the
  middle one with the path \<open>ghost\<close>; a variable map that binds a name to no value.
\<close>

definition boxRegistry :: Registry where
  "boxRegistry =
     \<lparr>loaded = [''box'' \<mapsto> \<lparr>CompPath = ''box'', Template = ''<p>hi</p>'', Styles = [],
                               Scripts = []\<rparr>,
                 ''row'' \<mapsto> \<lparr>CompPath = ''row'', Template = ''<b>{{.t}}</b>'', Styles = [],
                               Scripts = []\<rparr>]\<rparr>"

definition leftNode :: Node where
  "leftNode = Node \<lparr>Path = ''row'', Index = [1], ID = 0, Vars = [''t'' \<mapsto> [''x'']]\<rparr> []"

definition ghostNode :: Node where
  "ghostNode = Node \<lparr>Path = ''ghost'', Index = [2], ID = 1, Vars = Map.empty\<rparr> []"

definition rightNode :: Node where
  "rightNode = Node \<lparr>Path = ''row'', Index = [3], ID = 2, Vars = [''t'' \<mapsto> [''y'']]\<rparr> []"

definition emptyBinding :: "string \<rightharpoonup> string list" where
  "emptyBinding = [''x'' \<mapsto> []]"

text \<open>
  A storage with the component \<open>ui.card\<close> (a template, a stylesheet and a script), and
  the first load of that component by an empty registry.
\<close>

definition cardStorage :: Storage where
  "cardStorage =
     \<lparr>sourcePath = ''src'', targetPath = ''out'',
      fsReadFile = (\<lambda>p. if p = ''src/components/ui/card/card.html''
                           then Inr ''<div>{{component}}</div>''
                         else if p = ''src/components/ui/card/card.css'' then Inr ''.card{}''
                         else if p = ''src/components/ui/card/hover.js'' then Inr ''init();''
                         else Inl ''no such file''),
      fsWalk = (\<lambda>d. if d = ''src/components/ui/card''
                       then Inr [''card.css'', ''card.html'', ''hover.js'']
                     else Inl ''no such directory''),
      fsWrite = (\<lambda>p c. None)\<rparr>"

definition firstLoad :: "(string + Component) \<times> (Registry \<times> StoreCall list)" where
  "firstLoad = Load cardStorage ''ui.card'' (component_New, [])"

text \<open>A storage in which \<open>src/components/ui/card.css\<close> is a file, not a directory.\<close>

definition fileStorage :: Storage where
  "fileStorage =
     \<lparr>sourcePath = ''src'', targetPath = ''out'',
      fsReadFile = (\<lambda>p. if p = ''src/components/ui/card.css'' then Inr ''.card{}''
                         else Inl ''no such file''),
      fsWalk = (\<lambda>d. if d = ''src/components/ui/card.css'' then Inr [''.'']
                     else Inl ''no such directory''),
      fsWrite = (\<lambda>p c. None)\<rparr>"

section \<open>The styles marker (C1)\<close>

text \<open>
  C1 says that when a component's template declares a styles marker, the assembled
  HTML has the generated stylesheet link at the marker's position. The code does not do
  that. On the blueprint \<open>1 page\<close>, where the template of \<open>page\<close> is
  \<open><head>{{styles}}</head>\<close> and \<open>page\<close> has a stylesheet, the tokenizer turns the
  marker into a \<open>StyleToken\<close>, \<open>processTemplate\<close> records it in \<open>hasStyles\<close> and writes
  nothing, so the text \<open>{{styles}}\<close> that \<open>Assembler\<close> looks for is not in the
  rendered HTML: the result is \<open><head></head>\<close>, without the link that
  \<open>GetAssetTags\<close> generated, although \<open>hasStyles\<close> is set and the stylesheet file is
  produced. The same page comes out of \<open>processBlueprint\<close> on a storage that holds
  the blueprint and the component. This holds for every hash function \<open>H\<close> and every
  rearrangement \<open>perm\<close> of long slices.
\<close>

theorem C1_styles_marker_lost:
  \<open>map_option
     (\<lambda>(r, p). (case r of Inr res \<Rightarrow> (HTML res, Files res) | Inl e \<Rightarrow> (e, []),
                 hasStyles p, fst (GetAssetTags (assets p) [] [])))
     (Assembler H [] (fst (New perm ''1 page'')) (template_New pageRegistry))
   = Some ((''<head></head>'', [(''styles.css'', ''body{}\<newline>'')]), True,
           ''<link rel="stylesheet" href="css/styles.css">'')
   \<and> processBlueprint H [] perm pageStorage ''index.blueprint'' ''blueprints/index''
       = Some (None, [(''out/index.html'', ''<head></head>''),
                      (''out/css/styles.css'', ''body{}\<newline>'')])\<close>
  by code_simp

section \<open>Duplicate block indices (C3)\<close>

text \<open>
  C3 says that a blueprint with two block lines of the same index path is a fatal parse
  failure, returned as an error that aborts the build of that blueprint. The code does
  not do that. \<open>New\<close> returns a nil error for every text \<open>c\<close>. On the text of two
  lines \<open>1 a\<close> and \<open>1 b\<close> it returns the nil tree together with the nil error;
  \<open>processBlueprint\<close> therefore goes on, loads nothing, assembles the nil tree into
  an empty page, writes it to \<open>out/dup.html\<close> and returns no error.
\<close>

theorem C3_duplicate_index_no_error:
  "snd (New perm c) = None \<and>
   fst (New perm ''1 a\<newline>1 b'') = None \<and>
   processBlueprint H [] perm dupStorage ''dup.blueprint'' ''blueprints/dup''
     = Some (None, [(''out/dup.html'', [])])"
proof -
  have "snd (New perm c) = None" by (simp add: New_def)
  moreover have "fst (New perm ''1 a\<newline>1 b'') = None" by code_simp
  moreover have "processBlueprint H [] perm dupStorage ''dup.blueprint'' ''blueprints/dup''
                   = Some (None, [(''out/dup.html'', [])])"
    by code_simp
  ultimately show ?thesis by blast
qed

section \<open>The parser: absent trees (C4)\<close>

lemma natDigits_nonempty: "natDigits n \<noteq> []"
  by (subst natDigits.simps) simp

lemma Itoa_nonempty: "Itoa i \<noteq> []"
  by (simp add: Itoa_def natDigits_nonempty)

lemma Join_Cons_nonempty: "x \<noteq> [] \<Longrightarrow> Join (x # xs) sep \<noteq> []"
  by (cases xs) auto

lemma indexKey_empty_iff: "indexKey idx = [] \<longleftrightarrow> idx = []"
  by (cases idx) (auto simp: indexKey_def Join_Cons_nonempty Itoa_nonempty)

text \<open>The attach loop fails exactly on a key that is already in \<open>nodeMap\<close>.\<close>

lemma attachAll_None_iff:
  "attachAll bs root seen = None \<longleftrightarrow>
     (\<not> distinct (map (\<lambda>b. indexKey (Index b)) bs)
      \<or> (\<exists>b \<in> set bs. indexKey (Index b) \<in> set seen))"
proof (induction bs arbitrary: root seen)
  case Nil
  show ?case by simp
next
  case (Cons b bs)
  let ?K = "\<lambda>b. indexKey (Index b)"
  have "attachAll (b # bs) root seen = None \<longleftrightarrow>
          (?K b \<in> set seen \<or> \<not> distinct (map ?K bs)
           \<or> (\<exists>x \<in> set bs. ?K x \<in> set (?K b # seen)))"
    by (simp add: Let_def Cons.IH)
  also have "\<dots> \<longleftrightarrow>
          (\<not> distinct (map ?K (b # bs)) \<or> (\<exists>x \<in> set (b # bs). ?K x \<in> set seen))"
    by (simp add: image_iff) metis
  finally show ?case .
qed

text \<open>No block with an empty index is in a tree that \<open>buildTree\<close> returns.\<close>

lemma buildTree_Index_nonempty:
  assumes "buildTree perm bs = Some t" and "b \<in> set bs"
  shows "Index b \<noteq> []"
proof
  assume "Index b = []"
  then have "indexKey (Index b) \<in> set ['''']" by (simp add: indexKey_def)
  then have "attachAll bs (Node rootBlock []) [''''] = None"
    using assms(2) attachAll_None_iff by blast
  then show False using assms(1) by (simp add: buildTree_def split: if_splits)
qed

lemma Split_nonempty: "Split s c \<noteq> []"
  by (induction s) (auto split: list.splits)

lemma parseIndex_length: "parseIndex xs = Some idx \<Longrightarrow> length idx = length xs"
  by (induction xs arbitrary: idx) (auto split: option.splits)

lemma parseLine_Index: "parseLine l i = Some b \<Longrightarrow> Index b \<noteq> []"
proof -
  assume a: "parseLine l i = Some b"
  then obtain s c idx where "parseIndex (Split s c) = Some idx" "Index b = idx"
    by (auto simp: parseLine_def Let_def split: if_splits option.splits)
  then show ?thesis
    using parseIndex_length [of "Split s c" idx] Split_nonempty [of s c] by auto
qed

lemma varLine_Index: "map Index (varLine l bs) = map Index bs"
proof (cases "bs = []")
  case True
  then show ?thesis by (simp add: varLine_def)
next
  case False
  then have "bs = butlast bs @ [last bs]" by simp
  then have "map Index bs = map Index (butlast bs) @ [Index (last bs)]"
    by (metis list.simps(8,9) map_append)
  then show ?thesis
    by (auto simp: varLine_def Let_def addVar_def split: option.splits)
qed

lemma newLoop_Index:
  "\<forall>b \<in> set bs. Index b \<noteq> [] \<Longrightarrow> \<forall>b \<in> set (newLoop ls bs i). Index b \<noteq> []"
proof (induction ls arbitrary: bs i)
  case Nil
  then show ?case by simp
next
  case (Cons l ls)
  have v: "\<forall>b \<in> set (varLine (TrimSpace l) bs). Index b \<noteq> []"
  proof -
    have "set (map Index (varLine (TrimSpace l) bs)) = set (map Index bs)"
      by (simp only: varLine_Index)
    then show ?thesis using Cons.prems by (metis (no_types, lifting) image_iff list.set_map)
  qed
  show ?case
  proof (cases "HasPrefix (TrimSpace l) ''.''")
    case True
    then show ?thesis using Cons.IH [OF v] by (simp add: Let_def)
  next
    case False
    show ?thesis
    proof (cases "parseLine (TrimSpace l) i")
      case None
      then show ?thesis using False Cons.IH [OF Cons.prems] by (simp add: Let_def)
    next
      case (Some blk)
      have "\<forall>b \<in> set (bs @ [blk]). Index b \<noteq> []"
        using Cons.prems parseLine_Index [OF Some] by auto
      from Cons.IH [OF this] show ?thesis using False Some by (simp add: Let_def)
    qed
  qed
qed

lemma parseBlocks_Index: "b \<in> set (parseBlocks c) \<Longrightarrow> Index b \<noteq> []"
  using newLoop_Index [of "[]" "Split c CHR 0x0A" 0] by (auto simp: parseBlocks_def)

text \<open>
  C4 says that \<open>New\<close> returns an absent tree only when two blocks have the same index,
  and that a text in which every line is skipped gives a tree. That is false: a text
  with a comment line only has no duplicate index, and \<open>buildTree\<close> returns nil for
  it, by its first statement \<open>if len(blocks) == 0 { return nil }\<close>.
\<close>

theorem C4_counterexample:
  "fst (New stablePerm ''# only a comment'') = None \<and> \<not> duplicateIndex ''# only a comment''"
  by code_simp

text \<open>
  C4 as amended: \<open>New\<close> returns an absent tree exactly when no line of the text is
  accepted as a block line or two accepted block lines have the same index key; for
  every other text it returns a tree.
\<close>

theorem C4_absent_tree_iff:
  "fst (New perm c) = None \<longleftrightarrow> parseBlocks c = [] \<or> duplicateIndex c"
proof -
  have "\<not> (\<exists>b \<in> set (parseBlocks c). indexKey (Index b) \<in> set [''''])"
    using parseBlocks_Index [of _ c] by (auto simp: indexKey_empty_iff)
  then show ?thesis
    by (auto simp: New_def buildTree_def attachAll_None_iff duplicateIndex_def)
qed

theorem C4_absent_tree_iff_witness:
  "length (parseBlocks ''1 a'') = 1 \<and> \<not> duplicateIndex ''1 a''
   \<and> fst (New stablePerm ''1 a'') \<noteq> None"
proof -
  have l: "length (parseBlocks ''1 a'') = 1" by code_simp
  have d: "\<not> duplicateIndex ''1 a''" by code_simp
  from l have "parseBlocks ''1 a'' \<noteq> []" by auto
  with d have "fst (New stablePerm ''1 a'') \<noteq> None"
    using C4_absent_tree_iff [of stablePerm "''1 a''"] by blast
  with l d show ?thesis by blast
qed

section \<open>The parser: sibling order (C7)\<close>

lemma Block_sortNodes: "Block (sortNodes perm r n) = Block n"
  by (cases n) simp

lemma firstSeg_sortNodes: "firstSeg (sortNodes perm r n) = firstSeg n"
  by (simp add: firstSeg_def Block_sortNodes)

lemma lastSeg_sortNodes: "lastSeg (sortNodes perm r n) = lastSeg n"
  by (simp add: lastSeg_def Block_sortNodes)

text \<open>
  \<open>sortSlice\<close> returns elements of the slice; when \<open>perm\<close> is what Go promises, it
  returns a sorted rearrangement of the slice.
\<close>

lemma sortSlice_subset: "set (sortSlice perm key xs) \<subseteq> set xs"
  by (auto simp: sortSlice_def)

lemma sortSlice_long:
  assumes "sortsKeys perm"
  shows "filter (\<lambda>i. i < length xs) (perm (map key xs)) = perm (map key xs)"
proof -
  have "set (perm (map key xs)) = {..<length xs}"
    using assms by (simp add: sortsKeys_def)
  then show ?thesis by (simp add: filter_id_conv)
qed

lemma sortSlice_set: "sortsKeys perm \<Longrightarrow> set (sortSlice perm key xs) = set xs"
proof -
  assume a: "sortsKeys perm"
  then have "set (perm (map key xs)) = {..<length xs}" by (simp add: sortsKeys_def)
  then have "(\<lambda>i. xs ! i) ` set (perm (map key xs)) = set xs"
    by (simp add: set_conv_nth) blast
  then show ?thesis by (simp add: sortSlice_def sortSlice_long [OF a])
qed

lemma sortSlice_length: "sortsKeys perm \<Longrightarrow> length (sortSlice perm key xs) = length xs"
  by (simp add: sortSlice_def sortSlice_long) (simp add: sortsKeys_def)

lemma sortSlice_sorted: "sortsKeys perm \<Longrightarrow> sorted (map key (sortSlice perm key xs))"
proof -
  assume a: "sortsKeys perm"
  have r: "set (perm (map key xs)) = {..<length xs}"
    using a by (simp add: sortsKeys_def)
  have s: "sorted (map (\<lambda>i. map key xs ! i) (perm (map key xs)))"
    using a unfolding sortsKeys_def by blast
  have e: "map key (map (\<lambda>i. xs ! i) (perm (map key xs)))
             = map (\<lambda>i. map key xs ! i) (perm (map key xs))"
    using r by auto
  have "sorted (map key (map (\<lambda>i. xs ! i) (perm (map key xs))))"
    by (subst e) (rule s)
  then show ?thesis
    by (cases "length xs \<le> 6") (simp_all add: sortSlice_def sortSlice_long [OF a])
qed

lemma sortSlice_distinct:
  assumes "sortsKeys perm" and "distinct (map f xs)"
  shows "distinct (map f (sortSlice perm key xs))"
proof -
  let ?ys = "sortSlice perm key xs"
  have d: "distinct xs" and i: "inj_on f (set xs)"
    using assms(2) by (simp_all add: distinct_map)
  have "card (set ?ys) = length ?ys"
    using d by (simp add: sortSlice_set [OF assms(1)] sortSlice_length [OF assms(1)]
                          distinct_card)
  then have "distinct ?ys" by (rule card_distinct)
  then show ?thesis using i by (simp add: distinct_map sortSlice_set [OF assms(1)])
qed

lemma Join_snoc: "Join (ys @ [y]) sep = (if ys = [] then y else Join ys sep @ sep @ y)"
  by (induction ys sep rule: Join.induct) auto

lemma indexKey_snoc: "indexKey (xs @ [l]) = snocKey (indexKey xs) l"
  by (simp add: indexKey_def snocKey_def Join_snoc)
     (metis indexKey_def indexKey_empty_iff list.map_disc_iff)

lemma lastSeg_last: "Index (Block c) \<noteq> [] \<Longrightarrow> lastSeg c = last (Index (Block c))"
  by (cases "Index (Block c)" rule: rev_cases) (auto simp: lastSeg_def)

lemma keyOf_snocKey:
  assumes "Index (Block c) \<noteq> []"
  shows "keyOf c = snocKey (indexKey (butlast (Index (Block c)))) (lastSeg c)"
proof -
  from assms have "Index (Block c) = butlast (Index (Block c)) @ [last (Index (Block c))]"
    by simp
  then have "keyOf c = indexKey (butlast (Index (Block c)) @ [last (Index (Block c))])"
    by (simp add: keyOf_def)
  then show ?thesis by (simp only: indexKey_snoc lastSeg_last [OF assms])
qed

lemma Block_attach: "Block (attach pk n t) = Block t"
  by (cases t) simp

lemma keyOf_attach: "keyOf (attach pk n t) = keyOf t"
  by (simp add: keyOf_def Block_attach)

lemma attached_mono: "set seen \<subseteq> set seen' \<Longrightarrow> attached seen r t \<Longrightarrow> attached seen' r t"
  by (induction t arbitrary: r) auto

lemma attached_attach:
  assumes "indexKey (Index blk) \<notin> set seen" and "Index blk \<noteq> []"
  shows "attached seen r t \<Longrightarrow>
         attached (indexKey (Index blk) # seen) r
           (attach (indexKey (butlast (Index blk))) (Node blk []) t)"
proof (induction t arbitrary: r)
  case (Node b cs)
  let ?n = "Node blk []"
  let ?pk = "indexKey (butlast (Index blk))"
  let ?seen = "indexKey (Index blk) # seen"
  have kn: "keyOf ?n = indexKey (Index blk)" by (simp add: keyOf_def)
  have old: "\<forall>c \<in> set cs. keyOf c \<in> set seen \<and> attached seen False c"
    using Node.prems by simp
  have old': "\<forall>c \<in> set cs. keyOf c \<in> set ?seen \<and> attached ?seen False c"
    using old attached_mono [of seen ?seen] by auto
  show ?case
  proof (cases "indexKey (Index b) = ?pk")
    case True
    have fresh: "keyOf ?n \<notin> keyOf ` set cs" using old assms(1) kn by auto
    have "r \<or> (distinct (map keyOf (cs @ [?n]))
                 \<and> (\<forall>c \<in> set (cs @ [?n]). Index (Block c) \<noteq> []
                        \<and> indexKey (butlast (Index (Block c))) = indexKey (Index b)))"
      using Node.prems fresh assms(2) True by auto
    moreover have "\<forall>c \<in> set (cs @ [?n]). keyOf c \<in> set ?seen \<and> attached ?seen False c"
      using old' kn by auto
    ultimately show ?thesis using True by simp
  next
    case False
    have m: "map keyOf (map (attach ?pk ?n) cs) = map keyOf cs"
      by (simp add: keyOf_attach)
    have "r \<or> (distinct (map keyOf (map (attach ?pk ?n) cs))
                 \<and> (\<forall>c \<in> set (map (attach ?pk ?n) cs). Index (Block c) \<noteq> []
                        \<and> indexKey (butlast (Index (Block c))) = indexKey (Index b)))"
      using Node.prems by (auto simp only: m attached.simps set_map Block_attach)
    moreover have "\<forall>c \<in> set (map (attach ?pk ?n) cs).
                     keyOf c \<in> set ?seen \<and> attached ?seen False c"
      using old' Node.IH old by (auto simp: keyOf_attach)
    ultimately show ?thesis using False by simp
  qed
qed

lemma attached_appendChild:
  "attached seen True root \<Longrightarrow>
   attached (indexKey (Index blk) # seen) True (appendChild root (Node blk []))"
proof (cases root)
  case (Node b cs)
  assume "attached seen True root"
  then have "\<forall>c \<in> set cs. keyOf c \<in> set seen \<and> attached seen False c" using Node by simp
  then have "\<forall>c \<in> set cs. keyOf c \<in> set (indexKey (Index blk) # seen)
                \<and> attached (indexKey (Index blk) # seen) False c"
    using attached_mono [of seen "indexKey (Index blk) # seen"] by auto
  then show ?thesis using Node by (simp add: appendChild_def keyOf_def)
qed

lemma attachAll_attached:
  "attached seen True root \<Longrightarrow> attachAll bs root seen = Some t \<Longrightarrow> \<exists>seen'. attached seen' True t"
proof (induction bs arbitrary: root seen)
  case Nil
  then show ?case by auto
next
  case (Cons b bs)
  let ?seen = "indexKey (Index b) # seen"
  from Cons.prems(2) have fresh: "indexKey (Index b) \<notin> set seen"
    by (auto simp: Let_def split: if_splits)
  have a: "Index b \<noteq> [] \<Longrightarrow>
           attached ?seen True (attach (indexKey (butlast (Index b))) (Node b []) root)"
    using attached_attach [OF fresh _ Cons.prems(1)] by simp
  have c: "attached ?seen True (appendChild root (Node b []))"
    using Cons.prems(1) by (rule attached_appendChild)
  from Cons.prems(2) show ?case
    using Cons.IH [OF a] Cons.IH [OF c] fresh
    by (auto simp: Let_def split: if_splits)
qed

lemma distinct_lastSeg:
  assumes "distinct (map keyOf cs)"
    and "\<forall>c \<in> set cs. Index (Block c) \<noteq> [] \<and> indexKey (butlast (Index (Block c))) = pk"
  shows "distinct (map lastSeg cs)"
proof -
  have "map keyOf cs = map (snocKey pk) (map lastSeg cs)"
    using assms(2) keyOf_snocKey by (auto simp: comp_def)
  then show ?thesis using assms(1) by (metis distinct_map)
qed

lemma siblingsSorted_sortNodes:
  assumes p: "sortsKeys perm"
  shows "attached seen r t \<Longrightarrow> siblingsSorted r (sortNodes perm r t)"
proof (induction t arbitrary: r)
  case (Node b cs)
  have f: "firstSeg \<circ> sortNodes perm False = firstSeg"
    "lastSeg \<circ> sortNodes perm False = lastSeg"
    by (rule ext, simp add: firstSeg_sortNodes lastSeg_sortNodes)+
  have rec: "\<forall>c \<in> set cs. siblingsSorted False (sortNodes perm False c)"
    using Node.IH Node.prems by simp
  show ?case
  proof (cases r)
    case True
    then show ?thesis
      using rec f sortSlice_sorted [OF p, of firstSeg cs]
      by (simp add: sortSlice_set [OF p])
  next
    case False
    then have "distinct (map lastSeg cs)"
      using Node.prems distinct_lastSeg [of cs "indexKey (Index b)"] by simp
    then have "distinct (map lastSeg (sortSlice perm lastSeg cs))"
      using p by (simp add: sortSlice_distinct)
    then have "sorted_wrt (<) (map lastSeg (sortSlice perm lastSeg cs))"
      using sortSlice_sorted [OF p, of lastSeg cs] by (simp add: strict_sorted_iff)
    then show ?thesis using False rec f by (simp add: sortSlice_set [OF p])
  qed
qed

text \<open>
  C7 says that the order of siblings depends only on the last segment of their index,
  and that the blocks \<open>1.2 a\<close>, \<open>1.1 b\<close> render as \<open>b\<close> before \<open>a\<close>. That is
  false for the children of the root, which \<open>sortNodes\<close> compares by their first
  segment (\<open>if node == root\<close>), and under which \<open>buildTree\<close> hangs every block whose
  parent key it has not seen. The blocks \<open>2.1 a\<close>, \<open>1.5 b\<close> come out as \<open>b\<close>
  (last segment 5) before \<open>a\<close> (last segment 1). The blocks \<open>1.2 a\<close>, \<open>1.1 b\<close>,
  with no block \<open>1\<close> before them, both hang under the root with the first segment 1
  and keep their order in the text: \<open>a\<close> before \<open>b\<close>.
\<close>

theorem C7_counterexample:
  "map (\<lambda>n. (Path (Block n), lastSeg n))
       (Children (the (fst (New stablePerm ''2.1 a\<newline>1.5 b'')))) = [(''b'', 5), (''a'', 1)]
   \<and> map (\<lambda>n. Path (Block n))
       (Children (the (fst (New stablePerm ''1.2 a\<newline>1.1 b'')))) = [''a'', ''b'']"
  by code_simp

text \<open>
  The stable rearrangement and the one that reverses equal keys are both what Go
  promises. On the eight blocks \<open>1.1 a\<close> to \<open>1.8 h\<close>, which all hang under the root
  with the first segment 1, the first keeps the order of the text and the second
  reverses it.
\<close>

lemma sortsKeys_stablePerm: "sortsKeys stablePerm"
  by (simp add: sortsKeys_def stablePerm_def lessThan_atLeast0)

lemma sortsKeys_reversePerm: "sortsKeys reversePerm"
  by (simp add: sortsKeys_def reversePerm_def lessThan_atLeast0)

text \<open>With the stable rearrangement, \<open>sortSlice\<close> is the stable sort on every slice.\<close>

lemma insort_key_map:
  "insort_key f (g x) (map g xs) = map g (insort_key (\<lambda>a. f (g a)) x xs)"
  by (induction xs) auto

lemma sort_key_map: "sort_key f (map g xs) = map g (sort_key (\<lambda>a. f (g a)) xs)"
  by (induction xs) (simp_all add: insort_key_map)

lemma insort_key_agree:
  "f x = g x \<Longrightarrow> \<forall>y \<in> set xs. f y = g y \<Longrightarrow> insort_key f x xs = insort_key g x xs"
  by (induction xs) auto

lemma sort_key_agree: "\<forall>y \<in> set xs. f y = g y \<Longrightarrow> sort_key f xs = sort_key g xs"
proof (induction xs)
  case Nil
  then show ?case by simp
next
  case (Cons x xs)
  then have e: "sort_key f xs = sort_key g xs" by simp
  have "\<forall>y \<in> set (sort_key g xs). f y = g y" using Cons.prems by simp
  then have "insort_key f x (sort_key g xs) = insort_key g x (sort_key g xs)"
    using Cons.prems by (intro insort_key_agree) simp_all
  then show ?case by (simp add: e)
qed

lemma sortSlice_stablePerm: "sortSlice stablePerm key xs = sort_key key xs"
proof (cases "length xs \<le> 6")
  case True
  then show ?thesis by (simp add: sortSlice_def)
next
  case False
  have "sort_key (\<lambda>i. map key xs ! i) [0..<length xs]
          = sort_key (\<lambda>i. key (xs ! i)) [0..<length xs]"
    by (rule sort_key_agree) simp
  then have "map (\<lambda>i. xs ! i) (stablePerm (map key xs))
               = sort_key key (map (\<lambda>i. xs ! i) [0..<length xs])"
    by (simp only: stablePerm_def sort_key_map length_map)
  also have "\<dots> = sort_key key xs" by (simp only: map_nth)
  finally show ?thesis
    using False by (simp add: sortSlice_def sortSlice_long [OF sortsKeys_stablePerm])
qed

lemma sortSlice_equal_keys:
  "map (\<lambda>n. Path (Block n))
     (Children (the (fst (New stablePerm
        ''1.1 a\<newline>1.2 b\<newline>1.3 c\<newline>1.4 d\<newline>1.5 e\<newline>1.6 f\<newline>1.7 g\<newline>1.8 h''))))
     = [''a'', ''b'', ''c'', ''d'', ''e'', ''f'', ''g'', ''h'']
   \<and> map (\<lambda>n. Path (Block n))
     (Children (the (fst (New reversePerm
        ''1.1 a\<newline>1.2 b\<newline>1.3 c\<newline>1.4 d\<newline>1.5 e\<newline>1.6 f\<newline>1.7 g\<newline>1.8 h''))))
     = [''h'', ''g'', ''f'', ''e'', ''d'', ''c'', ''b'', ''a'']"
  by code_simp

text \<open>
  C7 as amended: in every tree that \<open>New\<close> returns, whatever the order of the block
  lines in the text, the children of every node other than the root are in strictly
  ascending order of the last segment of their index (no two of them have the same
  last segment, so these segments alone fix their order), and the children of the root
  are in ascending order of the first segment of their index. This holds whatever
  sorted rearrangement \<open>sort.Slice\<close> makes of a long slice.
\<close>

theorem C7_siblings_sorted:
  "sortsKeys perm \<Longrightarrow> fst (New perm c) = Some t \<Longrightarrow> siblingsSorted True t"
proof -
  assume p: "sortsKeys perm"
  assume "fst (New perm c) = Some t"
  then obtain t0 where t0: "attachAll (parseBlocks c) (Node rootBlock []) [''''] = Some t0"
    and t: "t = sortNodes perm True t0"
    by (auto simp: New_def buildTree_def split: if_splits)
  have "attached [''''] True (Node rootBlock [])" by simp
  from attachAll_attached [OF this t0] obtain seen where "attached seen True t0" by blast
  then show ?thesis unfolding t by (rule siblingsSorted_sortNodes [OF p])
qed

text \<open>With the parent block \<open>1 p\<close> first, the blocks \<open>1.2 a\<close>, \<open>1.1 b\<close> give \<open>b\<close> before \<open>a\<close>.\<close>

theorem C7_siblings_sorted_witness:
  "sortsKeys stablePerm
   \<and> fst (New stablePerm ''1 p\<newline>1.2 a\<newline>1.1 b'') \<noteq> None
   \<and> siblingsSorted True (the (fst (New stablePerm ''1 p\<newline>1.2 a\<newline>1.1 b'')))
   \<and> map (\<lambda>n. map (\<lambda>k. Path (Block k)) (Children n))
          (Children (the (fst (New stablePerm ''1 p\<newline>1.2 a\<newline>1.1 b'')))) = [[''b'', ''a'']]"
proof -
  let ?c = "''1 p\<newline>1.2 a\<newline>1.1 b''"
  have p: "sortsKeys stablePerm" by (rule sortsKeys_stablePerm)
  have h: "fst (New stablePerm ?c) \<noteq> None" by code_simp
  then have "fst (New stablePerm ?c) = Some (the (fst (New stablePerm ?c)))" by simp
  then have s: "siblingsSorted True (the (fst (New stablePerm ?c)))"
    by (rule C7_siblings_sorted [OF p])
  have e: "map (\<lambda>n. map (\<lambda>k. Path (Block k)) (Children n))
             (Children (the (fst (New stablePerm ?c)))) = [[''b'', ''a'']]"
    by code_simp
  from p h s e show ?thesis by blast
qed

section \<open>Identical scripts under different names (C2)\<close>

lemma js_name_not_styles: "x @ ''.js'' \<noteq> ''styles.css''"
proof
  assume "x @ ''.js'' = ''styles.css''"
  then have "x @ ''.js'' = ''styles.'' @ ''css''" by simp
  then have "''.js'' = ''css''" by (subst (asm) append_eq_append_conv) simp_all
  then show False by simp
qed

lemma distinct_single: "distinct xs \<Longrightarrow> set xs = {x} \<Longrightarrow> xs = [x]"
  by (cases xs; cases "tl xs") auto

text \<open>The pool of scripts after the two components: one entry, with both names.\<close>

lemma js_after_two:
  assumes "Scripts c1 = [(n1, jsc)]" "Scripts c2 = [(n2, jsc)]"
  shows "js (assetsOfTwo H c1 c2) =
           [(H jsc, \<lparr>content = jsc,
                     files = [derivedName (CompPath c1) n1, derivedName (CompPath c2) n2]\<rparr>)]"
    and "jsKeys (assetsOfTwo H c1 c2) = [H jsc]"
  using assms
  by (simp_all add: assetsOfTwo_def ProcessComponent_def processScript_def assets_New_def
        generateHash_def derivedName_def Let_def)

lemma GetFiles_css_cases:
  "GetFiles (m\<lparr>js := [], jsKeys := []\<rparr>) = [] \<or>
   (\<exists>v. GetFiles (m\<lparr>js := [], jsKeys := []\<rparr>) = [(''styles.css'', v)])"
  by (simp add: GetFiles_def)

text \<open>
  C2 says that two components with byte-identical JS under different derived names
  give exactly one physical file in the result of \<open>GetFiles\<close>. That is false: the
  components \<open>ui.card\<close> and \<open>ui.panel\<close>, each with a file \<open>hover.js\<close> of the same
  content, have the different derived names \<open>ui-card-hover\<close> and \<open>ui-panel-hover\<close>;
  the pool of scripts has one entry for the content, and \<open>GetFiles\<close>, whose inner
  loop writes \<open>files[jsName]\<close> for every name of the entry, returns two files with
  that content.
\<close>

theorem C2_counterexample:
  "derivedName ''ui.card'' ''hover.js'' \<noteq> derivedName ''ui.panel'' ''hover.js''
   \<and> length (js (assetsOfTwo idHash cardComponent panelComponent)) = 1
   \<and> GetFiles (assetsOfTwo idHash cardComponent panelComponent)
       = [(''ui-card-hover.js'', ''init();''), (''ui-panel-hover.js'', ''init();'')]"
  by code_simp

text \<open>
  C2 as amended: for every two components that each contribute the same JS content,
  under derived names that give different output file names, the pool of the asset
  manager keeps one entry for that content (one entry per content hash) with both
  derived names; the result of \<open>GetFiles\<close> is the stylesheet entry, if any, followed
  by one file per derived name, each with that content; and the script tags are one
  \<open><script>\<close> tag per derived name, for every order in which the pool is enumerated.
\<close>

theorem C2_one_file_per_name:
  assumes "Scripts c1 = [(n1, jsc)]" and "Scripts c2 = [(n2, jsc)]"
    and "jsName (derivedName (CompPath c1) n1) \<noteq> jsName (derivedName (CompPath c2) n2)"
  shows "js (assetsOfTwo H c1 c2) =
           [(H jsc, \<lparr>content = jsc,
                     files = [derivedName (CompPath c1) n1, derivedName (CompPath c2) n2]\<rparr>)]
       \<and> GetFiles (assetsOfTwo H c1 c2) =
           GetFiles ((assetsOfTwo H c1 c2)\<lparr>js := [], jsKeys := []\<rparr>)
             @ [(jsName (derivedName (CompPath c1) n1), jsc),
                (jsName (derivedName (CompPath c2) n2), jsc)]
       \<and> (\<forall>ord. distinct ord \<and> set ord = fst ` set (js (assetsOfTwo H c1 c2)) \<longrightarrow>
             snd (GetAssetTags (assetsOfTwo H c1 c2) ord prefix) =
               TrimSpace (scriptTag prefix (derivedName (CompPath c1) n1)
                          @ scriptTag prefix (derivedName (CompPath c2) n2)))"
proof -
  let ?m = "assetsOfTwo H c1 c2"
  let ?o1 = "derivedName (CompPath c1) n1" and ?o2 = "derivedName (CompPath c2) n2"
  note j = js_after_two [OF assms(1,2), of H]
  have files: "GetFiles ?m = GetFiles (?m\<lparr>js := [], jsKeys := []\<rparr>)
                 @ [(jsName ?o1, jsc), (jsName ?o2, jsc)]"
  proof -
    have g: "GetFiles ?m = AList.update (jsName ?o2) jsc (AList.update (jsName ?o1) jsc
               (GetFiles (?m\<lparr>js := [], jsKeys := []\<rparr>)))"
      by (simp add: GetFiles_def j jsName_def)
    from GetFiles_css_cases [of ?m] show ?thesis
      using assms(3) js_name_not_styles by (auto simp: g jsName_def)
  qed
  have tags: "snd (GetAssetTags ?m ord prefix)
                = TrimSpace (scriptTag prefix ?o1 @ scriptTag prefix ?o2)"
    if "distinct ord" "set ord = fst ` set (js ?m)" for ord
  proof -
    have "ord = [H jsc]" using that by (simp add: j distinct_single)
    then show ?thesis by (simp add: GetAssetTags_def j Let_def)
  qed
  from j(1) files tags show ?thesis by blast
qed

theorem C2_one_file_per_name_witness:
  \<open>Scripts cardComponent = [(''hover.js'', ''init();'')]
   \<and> Scripts panelComponent = [(''hover.js'', ''init();'')]
   \<and> jsName (derivedName (CompPath cardComponent) ''hover.js'')
       \<noteq> jsName (derivedName (CompPath panelComponent) ''hover.js'')
   \<and> GetFiles (assetsOfTwo idHash cardComponent panelComponent) =
       GetFiles ((assetsOfTwo idHash cardComponent panelComponent)\<lparr>js := [], jsKeys := []\<rparr>)
         @ [(jsName (derivedName (CompPath cardComponent) ''hover.js''), ''init();''),
            (jsName (derivedName (CompPath panelComponent) ''hover.js''), ''init();'')]
   \<and> snd (GetAssetTags (assetsOfTwo idHash cardComponent panelComponent) [''init();''] [])
       = ''<script src="js/ui-card-hover.js"></script>'' @ [CHR 0x0A]
           @ ''<script src="js/ui-panel-hover.js"></script>''\<close>
proof -
  have h1: "Scripts cardComponent = [(''hover.js'', ''init();'')]" by code_simp
  have h2: "Scripts panelComponent = [(''hover.js'', ''init();'')]" by code_simp
  have h3: "jsName (derivedName (CompPath cardComponent) ''hover.js'')
              \<noteq> jsName (derivedName (CompPath panelComponent) ''hover.js'')"
    by code_simp
  note c = C2_one_file_per_name [OF h1 h2 h3, of idHash "[]"]
  have t: \<open>snd (GetAssetTags (assetsOfTwo idHash cardComponent panelComponent) [''init();''] [])
       = ''<script src="js/ui-card-hover.js"></script>'' @ [CHR 0x0A]
           @ ''<script src="js/ui-panel-hover.js"></script>''\<close>
    by code_simp
  from h1 h2 h3 c t show ?thesis by blast
qed

section \<open>The loop of processTemplate\<close>

lemma forEach_append:
  "forEach f (xs @ ys) s = (case forEach f xs s of None \<Rightarrow> None | Some s' \<Rightarrow> forEach f ys s')"
  by (induction xs arbitrary: s) (auto split: option.splits)

lemma take_Suc_enumerate:
  "k < length xs \<Longrightarrow> take (Suc k) (enumerate 0 xs) = take k (enumerate 0 xs) @ [(k, xs ! k)]"
  by (simp add: take_Suc_conv_app_nth nth_enumerate_eq)

lemma stateAfter_0: "stateAfter kids vars toks 0 p = Some (initLoop, p)"
  by (simp add: stateAfter_def)

lemma stateAfter_Suc:
  "k < length toks \<Longrightarrow>
   stateAfter kids vars toks (Suc k) p =
     (case stateAfter kids vars toks k p of
        None \<Rightarrow> None
      | Some st \<Rightarrow> tokenStep kids vars toks (k, toks ! k) st)"
  by (simp add: stateAfter_def take_Suc_enumerate forEach_append split: option.splits)

lemma runTokens_stateAfter:
  "runTokens kids vars toks p =
     (case stateAfter kids vars toks (length toks) p of
        None \<Rightarrow> None
      | Some (ls, p') \<Rightarrow> Some (buf ls, p'))"
  by (simp add: runTokens_def stateAfter_def)

lemma renderRange_iterationText: "renderRange vars name body v = iterationText vars name body v"
proof -
  have "rangeTokenText vars name v =
          (\<lambda>t. if Type t = TextToken then Content t
                else if Type t = VarToken then
                  (if Content t = name then v
                   else (case vars (Content t) of Some (x # xs) \<Rightarrow> x | _ \<Rightarrow> []))
                else [])"
  proof (rule ext)
    fix t
    show "rangeTokenText vars name v t =
            (if Type t = TextToken then Content t
             else if Type t = VarToken then
               (if Content t = name then v
                else (case vars (Content t) of Some (x # xs) \<Rightarrow> x | _ \<Rightarrow> []))
             else [])"
      by (cases "Type t") (auto simp: rangeTokenText_def split: option.splits list.splits)
  qed
  then show ?thesis by (simp add: renderRange_def iterationText_def)
qed

text \<open>Inside an open range, a token other than the range end leaves the local variables.\<close>

lemma tokenStep_inRange:
  "inRange ls \<Longrightarrow> Type tok \<noteq> RangeEndToken \<Longrightarrow>
   \<exists>p'. tokenStep kids vars toks (i, tok) (ls, p) = Some (ls, p')"
  by (cases "Type tok") (auto simp: tokenStep_def)

lemma scan_open_range:
  assumes "inRange ls"
    and "\<forall>j < n. Type (toks ! (k + j)) \<noteq> RangeEndToken"
    and "k + n \<le> length toks"
    and "stateAfter kids vars toks k p = Some (ls, p1)"
  shows "\<exists>p2. stateAfter kids vars toks (k + n) p = Some (ls, p2)"
  using assms(2,3)
proof (induction n)
  case 0
  then show ?case using assms(4) by simp
next
  case (Suc n)
  then obtain p2 where s: "stateAfter kids vars toks (k + n) p = Some (ls, p2)" by auto
  have t: "Type (toks ! (k + n)) \<noteq> RangeEndToken" using Suc.prems(1) by simp
  have "k + n < length toks" using Suc.prems(2) by simp
  then have "stateAfter kids vars toks (Suc (k + n)) p
               = tokenStep kids vars toks (k + n, toks ! (k + n)) (ls, p2)"
    by (simp add: stateAfter_Suc s)
  then show ?case using tokenStep_inRange [OF assms(1) t, of kids vars toks "k + n" p2] by auto
qed

text \<open>A whole range block, reached with no range open.\<close>

lemma range_block:
  assumes toks: "toks = pre @ rs # body @ re # post"
    and rs: "Type rs = RangeStartToken"
    and re: "Type re = RangeEndToken"
    and body: "\<forall>t \<in> set body. Type t \<noteq> RangeEndToken"
    and reach: "stateAfter kids vars toks (length pre) p = Some (ls1, p1)"
    and closed: "\<not> inRange ls1"
  shows "\<exists>p2. stateAfter kids vars toks (length pre + length body + 2) p =
           Some (ls1\<lparr>buf := buf ls1 @
                        concat (map (renderRange vars (Content rs) body)
                                  (case vars (Content rs) of
                                     Some values \<Rightarrow> values
                                   | None \<Rightarrow> rangeContent ls1)),
                     rangeVar := Content rs,
                     rangeContent := (case vars (Content rs) of
                                        Some values \<Rightarrow> values
                                      | None \<Rightarrow> rangeContent ls1),
                     inRange := False, rangeStart := - 1\<rparr>, p2)"
proof -
  let ?k = "length pre"
  let ?rc = "case vars (Content rs) of Some values \<Rightarrow> values | None \<Rightarrow> rangeContent ls1"
  let ?open = "ls1\<lparr>inRange := True, rangeVar := Content rs, rangeStart := int ?k,
                   rangeContent := ?rc\<rparr>"
  have len: "?k + length body + 2 \<le> length toks" by (simp add: toks)
  have at_rs: "toks ! ?k = rs" by (simp add: toks)
  have s1: "stateAfter kids vars toks (Suc ?k) p = Some (?open, p1)"
    using len by (simp add: stateAfter_Suc reach at_rs tokenStep_def rs closed)
  have nth_body: "toks ! (Suc ?k + j) = body ! j" if "j < length body" for j
    using that by (simp add: toks nth_append)
  have "\<forall>j < length body. Type (toks ! (Suc ?k + j)) \<noteq> RangeEndToken"
    using body nth_body by simp
  from scan_open_range [OF _ this _ s1]
  obtain p2 where s2: "stateAfter kids vars toks (Suc ?k + length body) p = Some (?open, p2)"
    using len by auto
  define m where "m = Suc ?k + length body"
  have m_less: "m < length toks" using len by (simp add: m_def)
  have mk: "length pre < m" by (simp add: m_def)
  have at_re: "toks ! m = re" by (simp add: toks nth_append m_def)
  have n: "nat (int ?k + 1) = Suc ?k" by arith
  have sl: "slice toks (rangeStart ?open + 1) m = body"
    by (simp add: slice_def toks n m_def)
  have s2': "stateAfter kids vars toks m p = Some (?open, p2)"
    using s2 by (simp only: m_def)
  have "stateAfter kids vars toks (Suc m) p = tokenStep kids vars toks (m, re) (?open, p2)"
    by (simp only: stateAfter_Suc [OF m_less] s2' at_re option.case)
  also have "\<dots> = Some (?open\<lparr>buf := buf ?open @
                         concat (map (renderRange vars (rangeVar ?open) body) (rangeContent ?open)),
                       inRange := False, rangeStart := - 1\<rparr>, p2)"
    unfolding tokenStep_def using re sl m_less mk by simp
  finally have "stateAfter kids vars toks (Suc m) p =
                  Some (?open\<lparr>buf := buf ?open @
                         concat (map (renderRange vars (rangeVar ?open) body) (rangeContent ?open)),
                       inRange := False, rangeStart := - 1\<rparr>, p2)" .
  moreover have "Suc m = length pre + length body + 2" by (simp add: m_def)
  ultimately show ?thesis by auto
qed


text \<open>The buffer only grows.\<close>

lemma tokenStep_buf:
  "tokenStep kids vars toks it (ls, p) = Some (ls', p') \<Longrightarrow> \<exists>x. buf ls' = buf ls @ x"
  by (cases it; cases "Type (snd it)")
     (auto simp: tokenStep_def split: if_splits option.splits list.splits prod.splits)

lemma forEach_tokenStep_buf:
  "forEach (tokenStep kids vars toks) its (ls, p) = Some (ls', p') \<Longrightarrow>
   \<exists>x. buf ls' = buf ls @ x"
proof (induction its arbitrary: ls p)
  case Nil
  then show ?case by simp
next
  case (Cons it its)
  from Cons.prems obtain ls1 p1 where
    a: "tokenStep kids vars toks it (ls, p) = Some (ls1, p1)"
    and b: "forEach (tokenStep kids vars toks) its (ls1, p1) = Some (ls', p')"
    by (auto split: option.splits)
  from tokenStep_buf [OF a] Cons.IH [OF b] show ?case by auto
qed

lemma runTokens_extends:
  assumes "stateAfter kids vars toks k p = Some (ls, q)"
    and "runTokens kids vars toks p = Some (out, p')"
  shows "\<exists>rest. out = buf ls @ rest"
proof -
  have "enumerate 0 toks = take k (enumerate 0 toks) @ drop k (enumerate 0 toks)" by simp
  then have "forEach (tokenStep kids vars toks) (enumerate 0 toks) (initLoop, p)
               = forEach (tokenStep kids vars toks) (drop k (enumerate 0 toks)) (ls, q)"
    using assms(1) by (metis (no_types, lifting) forEach_append option.simps(5) stateAfter_def)
  then obtain ls' where "forEach (tokenStep kids vars toks) (drop k (enumerate 0 toks)) (ls, q)
                           = Some (ls', p')" "out = buf ls'"
    using assms(2) by (auto simp: runTokens_def split: option.splits)
  then show ?thesis using forEach_tokenStep_buf by blast
qed



section \<open>Range blocks (C6)\<close>

text \<open>
  C6 says that for every template with a block \<open>{{range .name}}\<close> ... \<open>{{range end}}\<close>
  and a node that binds \<open>name\<close> to three values, the body is rendered three times,
  once with each value. That is false for a block inside an open range: a range start
  is obeyed only \<open>if !inRange\<close>, so the start of the inner block is ignored, and its
  range end closes the outer range. In \<open>nestedTemplate\<close> the block over \<open>items\<close>,
  bound to \<open>a\<close>, \<open>b\<close>, \<open>c\<close>, lies in a range over \<open>k\<close>, bound to two values: its
  body \<open><{{.items}}>\<close> is rendered twice, once for each value of \<open>k\<close>, and both
  times \<open>{{.items}}\<close> gives the first value \<open>a\<close>. When \<open>k\<close> is not bound, the body
  is not rendered at all.
\<close>

theorem C6_counterexample:
  "map (\<lambda>t. (Type t, Content t)) (Tokenize nestedTemplate)
     = [(RangeStartToken, ''k''), (RangeStartToken, ''items''), (TextToken, ''<''),
        (VarToken, ''items''), (TextToken, ''>''), (RangeEndToken, []), (RangeEndToken, [])]
   \<and> listVars ''items'' = Some [''a'', ''b'', ''c'']
   \<and> listVars ''k'' = Some [''K'', ''L'']
   \<and> map_option fst (processTemplate idHash nestedTemplate listVars [] freshProcessor)
       = Some ''<a><a>''
   \<and> map_option inRange
        (map_option fst (stateAfter (\<lambda>q. processEach idHash [] q) listVars
                           (Tokenize nestedTemplate) 1 freshProcessor)) = Some True
   \<and> (listVars(''k'' := None)) ''items'' = Some [''a'', ''b'', ''c'']
   \<and> map_option fst
        (processTemplate idHash nestedTemplate (listVars(''k'' := None)) [] freshProcessor)
       = Some []"
  by code_simp

text \<open>
  C6 as amended. Take a template whose tokens contain a range block: a
  \<open>RangeStartToken\<close> for \<open>name\<close>, a body without \<open>RangeEndToken\<close>, and a
  \<open>RangeEndToken\<close>; let the loop of \<open>processTemplate\<close> reach the block with no range
  open (the block is not inside another range that is open), and let \<open>vars\<close> bind
  \<open>name\<close> to the three values \<open>a\<close>, \<open>b\<close>, \<open>c\<close>.
  Then the tokens of the block add to the buffer exactly three renderings of the body,
  in which the variable tokens named \<open>name\<close> give \<open>a\<close>, then \<open>b\<close>, then \<open>c\<close>, and
  every other variable token gives the first value of its own binding; and whatever
  \<open>processTemplate\<close> returns starts with the buffer before the block followed by these
  three renderings.
\<close>

theorem C6_range_three_values:
  assumes toks: "Tokenize tmpl = pre @ rs # body @ re # post"
    and rs: "Type rs = RangeStartToken" "Content rs = name"
    and re: "Type re = RangeEndToken"
    and body: "\<forall>t \<in> set body. Type t \<noteq> RangeEndToken"
    and vars: "vars name = Some [a, b, c]"
    and reach: "stateAfter (\<lambda>q. processEach H children q) vars (Tokenize tmpl) (length pre) p
                  = Some (ls1, p1)"
    and closed: "\<not> inRange ls1"
  shows "(\<exists>p2. stateAfter (\<lambda>q. processEach H children q) vars (Tokenize tmpl)
                 (length pre + length body + 2) p =
               Some (ls1\<lparr>buf := buf ls1 @ iterationText vars name body a
                                 @ iterationText vars name body b
                                 @ iterationText vars name body c,
                        rangeVar := name, rangeContent := [a, b, c],
                        inRange := False, rangeStart := - 1\<rparr>, p2))
       \<and> (\<forall>out p'. processTemplate H tmpl vars children p = Some (out, p') \<longrightarrow>
             (\<exists>rest. out = buf ls1 @ iterationText vars name body a
                               @ iterationText vars name body b
                               @ iterationText vars name body c @ rest))"
proof -
  let ?kids = "\<lambda>q. processEach H children q"
  let ?ls = "ls1\<lparr>buf := buf ls1 @ iterationText vars name body a
                                 @ iterationText vars name body b
                                 @ iterationText vars name body c,
                        rangeVar := name, rangeContent := [a, b, c],
                        inRange := False, rangeStart := - 1\<rparr>"
  from range_block [OF toks rs(1) re body reach closed]
  obtain p2 where
    s: "stateAfter ?kids vars (Tokenize tmpl) (length pre + length body + 2) p = Some (?ls, p2)"
    by (auto simp: rs(2) vars renderRange_iterationText)
  have "\<exists>rest. out = buf ls1 @ iterationText vars name body a
                               @ iterationText vars name body b
                               @ iterationText vars name body c @ rest"
    if "processTemplate H tmpl vars children p = Some (out, p')" for out p'
    using runTokens_extends [OF s, of out p'] that by auto
  with s show ?thesis by blast
qed

theorem C6_range_three_values_witness:
  "Tokenize loopTemplate =
     [textToken ''<ul>''] @ \<lparr>Type = RangeStartToken, Content = ''items''\<rparr>
       # [textToken ''<li>'', \<lparr>Type = VarToken, Content = ''items''\<rparr>, textToken '':'',
          \<lparr>Type = VarToken, Content = ''k''\<rparr>, textToken ''</li>'']
       @ \<lparr>Type = RangeEndToken, Content = []\<rparr> # [textToken ''</ul>'']
   \<and> listVars ''items'' = Some [''a'', ''b'', ''c'']
   \<and> stateAfter (\<lambda>q. processEach idHash [] q) listVars (Tokenize loopTemplate)
         (length [textToken ''<ul>'']) freshProcessor
       = Some (initLoop\<lparr>buf := ''<ul>''\<rparr>, freshProcessor)
   \<and> \<not> inRange (initLoop\<lparr>buf := ''<ul>''\<rparr>)
   \<and> (\<exists>p2. stateAfter (\<lambda>q. processEach idHash [] q) listVars (Tokenize loopTemplate) 8
               freshProcessor =
             Some (initLoop\<lparr>buf := ''<ul><li>a:K</li><li>b:K</li><li>c:K</li>'',
                            rangeVar := ''items'', rangeContent := [''a'', ''b'', ''c''],
                            inRange := False, rangeStart := - 1\<rparr>, p2))
   \<and> map_option fst (processTemplate idHash loopTemplate listVars [] freshProcessor)
       = Some ''<ul><li>a:K</li><li>b:K</li><li>c:K</li></ul>''"
proof -
  let ?pre = "[textToken ''<ul>'']"
  let ?rs = "\<lparr>Type = RangeStartToken, Content = ''items''\<rparr>"
  let ?body = "[textToken ''<li>'', \<lparr>Type = VarToken, Content = ''items''\<rparr>, textToken '':'',
                \<lparr>Type = VarToken, Content = ''k''\<rparr>, textToken ''</li>'']"
  let ?re = "\<lparr>Type = RangeEndToken, Content = []\<rparr>"
  let ?post = "[textToken ''</ul>'']"
  let ?kids = "\<lambda>q. processEach idHash [] q"
  have toks: "Tokenize loopTemplate = ?pre @ ?rs # ?body @ ?re # ?post" by code_simp
  have vars: "listVars ''items'' = Some [''a'', ''b'', ''c'']" by (simp add: listVars_def)
  have reach: "stateAfter ?kids listVars (Tokenize loopTemplate) (length ?pre) freshProcessor
                 = Some (initLoop\<lparr>buf := ''<ul>''\<rparr>, freshProcessor)"
    by (simp add: toks stateAfter_def tokenStep_def textToken_def initLoop_def)
  have closed: "\<not> inRange (initLoop\<lparr>buf := ''<ul>''\<rparr>)" by (simp add: initLoop_def)
  have body: "\<forall>t \<in> set ?body. Type t \<noteq> RangeEndToken" by (simp add: textToken_def)
  have ia: "iterationText listVars ''items'' ?body ''a'' = ''<li>a:K</li>''"
    and ib: "iterationText listVars ''items'' ?body ''b'' = ''<li>b:K</li>''"
    and ic: "iterationText listVars ''items'' ?body ''c'' = ''<li>c:K</li>''"
    by (simp_all add: iterationText_def listVars_def textToken_def)
  have trs: "Type ?rs = RangeStartToken" and crs: "Content ?rs = ''items''"
    and tre: "Type ?re = RangeEndToken"
    by simp_all
  note c = C6_range_three_values [OF toks trs crs tre body vars reach closed]
  let ?ls1 = "initLoop\<lparr>buf := ''<ul>''\<rparr>"
  let ?Y = "?ls1\<lparr>buf := buf ?ls1 @ iterationText listVars ''items'' ?body ''a''
                                   @ iterationText listVars ''items'' ?body ''b''
                                   @ iterationText listVars ''items'' ?body ''c'',
                     rangeVar := ''items'', rangeContent := [''a'', ''b'', ''c''],
                     inRange := False, rangeStart := - 1\<rparr>"
  let ?X = "initLoop\<lparr>buf := ''<ul><li>a:K</li><li>b:K</li><li>c:K</li>'',
                     rangeVar := ''items'', rangeContent := [''a'', ''b'', ''c''],
                     inRange := False, rangeStart := - 1\<rparr>"
  from c obtain p2 where
    e: "stateAfter ?kids listVars (Tokenize loopTemplate) (length ?pre + length ?body + 2)
          freshProcessor = Some (?Y, p2)"
    by blast
  have y: "?Y = ?X" by (simp add: ia ib ic initLoop_def)
  have n8: "length ?pre + length ?body + 2 = 8" by simp
  from e have "stateAfter ?kids listVars (Tokenize loopTemplate) 8 freshProcessor = Some (?X, p2)"
    by (simp only: y n8)
  then have st: "\<exists>p2. stateAfter ?kids listVars (Tokenize loopTemplate) 8 freshProcessor =
             Some (?X, p2)"
    by blast
  have out: "map_option fst (processTemplate idHash loopTemplate listVars [] freshProcessor)
       = Some ''<ul><li>a:K</li><li>b:K</li><li>c:K</li></ul>''"
    by code_simp
  from toks vars reach closed st out show ?thesis by blast
qed

section \<open>The loop values after a range block (C10)\<close>



section \<open>Unresolved components (C5)\<close>

lemma keeps_refl: "keeps p p"
  by (simp add: keeps_def)

lemma keeps_trans: "keeps p q \<Longrightarrow> keeps q r \<Longrightarrow> keeps p r"
  by (auto simp: keeps_def)

lemma addError_keeps: "keeps p (addError l d m p)"
  by (auto simp: keeps_def addError_def)

lemma processAssets_keeps: "keeps p (processAssets H c path p)"
  by (auto simp: keeps_def processAssets_def addError_def ProcessComponent_def Let_def
           split: prod.splits option.splits)

lemma tokenStep_keeps:
  assumes "\<And>q out q'. kids q = Some (out, q') \<Longrightarrow> keeps q q'"
    and "tokenStep kids vars toks it (ls, p) = Some (ls', p')"
  shows "keeps p p'"
proof (cases it)
  case (Pair i tok)
  show ?thesis
  proof (cases "Type tok = ComponentToken \<and> \<not> inRange ls")
    case True
    then obtain out where "kids p = Some (out, p')"
      using assms(2) Pair by (auto simp: tokenStep_def split: option.splits)
    then show ?thesis by (rule assms(1))
  next
    case False
    then have "registry p' = registry p \<and> errLines p' = errLines p"
      using assms(2) Pair
      by (cases "Type tok")
         (auto simp: tokenStep_def split: if_splits option.splits list.splits)
    then show ?thesis by (simp add: keeps_def)
  qed
qed

lemma forEach_tokenStep_keeps:
  assumes "\<And>q out q'. kids q = Some (out, q') \<Longrightarrow> keeps q q'"
  shows "forEach (tokenStep kids vars toks) its (ls, p) = Some (ls', p') \<Longrightarrow> keeps p p'"
proof (induction its arbitrary: ls p)
  case Nil
  then show ?case by (simp add: keeps_refl)
next
  case (Cons it its)
  from Cons.prems obtain ls1 p1 where
    a: "tokenStep kids vars toks it (ls, p) = Some (ls1, p1)"
    and b: "forEach (tokenStep kids vars toks) its (ls1, p1) = Some (ls', p')"
    by (auto split: option.splits)
  from tokenStep_keeps [OF assms a] Cons.IH [OF b] show ?case by (rule keeps_trans)
qed

lemma runTokens_keeps:
  assumes "\<And>q out q'. kids q = Some (out, q') \<Longrightarrow> keeps q q'"
    and "runTokens kids vars toks p = Some (out, p')"
  shows "keeps p p'"
  using assms(2) forEach_tokenStep_keeps [OF assms(1)]
  by (auto simp: runTokens_def split: option.splits)

lemma processEach_keeps_aux:
  assumes "\<And>c p r p'. c \<in> set cs \<Longrightarrow> Process H (Some c) p = Some (r, p') \<Longrightarrow> keeps p p'"
  shows "processEach H cs p = Some (out, p') \<Longrightarrow> keeps p p'"
  using assms
proof (induction cs arbitrary: p out)
  case Nil
  then show ?case by (simp add: keeps_refl)
next
  case (Cons c cs)
  from Cons.prems(1) obtain r p1 out2 where
    a: "Process H (Some c) p = Some (r, p1)"
    and b: "processEach H cs p1 = Some (out2, p')"
    by (auto split: option.splits prod.splits)
  have "keeps p p1" by (rule Cons.prems(2) [OF _ a]) simp
  moreover have "keeps p1 p'" by (rule Cons.IH [OF b]) (rule Cons.prems(2), simp_all)
  ultimately show ?case by (rule keeps_trans)
qed

lemma Process_keeps: "Process H (Some n) p = Some (r, p') \<Longrightarrow> keeps p p'"
proof (induction n arbitrary: p r p')
  case (Node b cs)
  have kids: "processEach H cs q = Some (out, q') \<Longrightarrow> keeps q q'" for q out q'
    using processEach_keeps_aux [of cs H q out q'] Node.IH by blast
  show ?case
  proof (cases "ID b = - 1")
    case True
    then obtain out where "processEach H cs p = Some (out, p')"
      using Node.prems
      by (auto simp: processResult_def split: option.splits prod.splits if_splits)
    then show ?thesis by (rule kids)
  next
    case False
    show ?thesis
    proof (cases "Get (registry p) (Path b)")
      case None
      then show ?thesis using Node.prems False by (auto simp: addError_keeps)
    next
      case (Some c)
      then obtain out where
        "runTokens (\<lambda>q. processEach H cs q) (Vars b) (Tokenize (Template c))
           (processAssets H c (Path b) p) = Some (out, p')"
        using Node.prems False
        by (auto simp: processResult_def split: option.splits prod.splits if_splits)
      then have "keeps (processAssets H c (Path b) p) p'"
        using runTokens_keeps [of "\<lambda>q. processEach H cs q"] kids by blast
      with processAssets_keeps show ?thesis by (rule keeps_trans)
    qed
  qed
qed

lemma processEach_keeps: "processEach H cs p = Some (out, p') \<Longrightarrow> keeps p p'"
  using processEach_keeps_aux Process_keeps by blast

lemma processEach_append:
  "processEach H (xs @ ys) p =
     (case processEach H xs p of
        None \<Rightarrow> None
      | Some (out1, p1) \<Rightarrow>
          (case processEach H ys p1 of
             None \<Rightarrow> None
           | Some (out2, p2) \<Rightarrow> Some (out1 @ out2, p2)))"
  by (induction xs arbitrary: p) (auto split: option.splits prod.splits)

lemma addError_collected:
  "list_ex (\<lambda>e. line e = l \<and> directive e = d) (errLines (addError l d m p))"
  by (auto simp: addError_def list_ex_iff)

text \<open>
  C5 says that for every tree with a node whose path the registry does not resolve,
  processing the tree collects an error for the node and writes the placeholder at the
  node's position. That is false for a node that the traversal does not reach: children
  are processed only at a \<open>ComponentToken\<close> of their parent's template. In the tree of
  the blocks \<open>1 box\<close>, \<open>1.1 ghost\<close>, where the template of \<open>box\<close> is \<open><p>hi</p>\<close>
  and \<open>ghost\<close> is not in the registry, \<open>Process\<close> returns \<open><p>hi</p>\<close> with no
  error, no collected error and no placeholder.
\<close>

theorem C5_counterexample:
  "map (\<lambda>n. (Path (Block n), map (\<lambda>k. Path (Block k)) (Children n)))
       (Children (the (fst (New stablePerm ''1 box\<newline>1.1 ghost'')))) = [(''box'', [''ghost''])]
   \<and> Get boxRegistry ''ghost'' = None
   \<and> map_option (\<lambda>r. (fst (fst r), snd (fst r), length (errLines (snd r))))
        (Process idHash (fst (New stablePerm ''1 box\<newline>1.1 ghost'')) (template_New boxRegistry))
       = Some (''<p>hi</p>'', None, 0)"
  by code_simp

text \<open>
  C5 as amended: whenever a list of siblings is processed (the children of the root, or
  the children of a component at the \<open>{{component}}\<close> marker of its template outside
  a range block) and one of them has a path that the registry does not resolve, then,
  provided the siblings before it and after it are rendered, the output is the output
  of the siblings before it, the placeholder \<open>{{path}}\<close>, and the output of the
  siblings after it, and an error with line 0 and the path as directive is among the
  collected errors at the end.
\<close>

theorem C5_unresolved_placeholder:
  assumes id: "ID (Block u) \<noteq> - 1"
    and unresolved: "Get (registry p) (Path (Block u)) = None"
    and before: "processEach H before p = Some (out1, p1)"
    and after: "processEach H after
                  (addError 0 (Path (Block u)) (''component not found: '' @ Path (Block u)) p1)
                  = Some (out2, p2)"
  shows "processEach H (before @ u # after) p
           = Some (out1 @ (''{{'' @ Path (Block u) @ ''}}'') @ out2, p2)
       \<and> list_ex (\<lambda>e. line e = 0 \<and> directive e = Path (Block u)) (errLines p2)"
proof -
  let ?path = "Path (Block u)"
  let ?q = "addError 0 ?path (''component not found: '' @ ?path) p1"
  have "registry p1 = registry p" using processEach_keeps [OF before] by (simp add: keeps_def)
  then have "Get (registry p1) ?path = None" using unresolved by simp
  then have u: "Process H (Some u) p1 = Some ((''{{'' @ ?path @ ''}}'', None), ?q)"
    using id by (cases u) simp
  have "processEach H (u # after) p1 = Some ((''{{'' @ ?path @ ''}}'') @ out2, p2)"
    by (simp only: processEach.simps u after option.case prod.case)
  then have eq: "processEach H (before @ u # after) p
              = Some (out1 @ (''{{'' @ ?path @ ''}}'') @ out2, p2)"
    by (simp only: processEach_append before option.case prod.case)
  have sub: "set (errLines ?q) \<subseteq> set (errLines p2)"
    using processEach_keeps [OF after] by (simp only: keeps_def)
  from addError_collected [of 0 ?path "''component not found: '' @ ?path" p1]
  obtain e where e: "e \<in> set (errLines ?q)" "line e = 0 \<and> directive e = ?path"
    unfolding list_ex_iff by blast
  from e(1) sub have "e \<in> set (errLines p2)" by blast
  with e(2) have "list_ex (\<lambda>e. line e = 0 \<and> directive e = ?path) (errLines p2)"
    unfolding list_ex_iff by blast
  with eq show ?thesis by blast
qed

theorem C5_unresolved_placeholder_witness:
  "ID (Block ghostNode) \<noteq> - 1
   \<and> Get (registry (template_New boxRegistry)) (Path (Block ghostNode)) = None
   \<and> map_option fst (processEach idHash [leftNode] (template_New boxRegistry)) = Some ''<b>x</b>''
   \<and> map_option fst
        (processEach idHash ([leftNode] @ ghostNode # [rightNode]) (template_New boxRegistry))
       = Some ''<b>x</b>{{ghost}}<b>y</b>''
   \<and> (\<exists>p2. map_option snd
               (processEach idHash ([leftNode] @ ghostNode # [rightNode])
                  (template_New boxRegistry)) = Some p2
             \<and> list_ex (\<lambda>e. line e = 0 \<and> directive e = ''ghost'') (errLines p2))"
proof -
  let ?p = "template_New boxRegistry"
  let ?X1 = "processEach idHash [leftNode] ?p"
  let ?q = "addError 0 (Path (Block ghostNode))
              (''component not found: '' @ Path (Block ghostNode)) (snd (the ?X1))"
  let ?X2 = "processEach idHash [rightNode] ?q"
  have id: "ID (Block ghostNode) \<noteq> - 1" by code_simp
  have un: "Get (registry ?p) (Path (Block ghostNode)) = None" by code_simp
  have o1: "map_option fst ?X1 = Some ''<b>x</b>''" by code_simp
  then have x1: "?X1 = Some (''<b>x</b>'', snd (the ?X1))" by (cases ?X1) auto
  have o2: "map_option fst ?X2 = Some ''<b>y</b>''" by code_simp
  then have x2: "?X2 = Some (''<b>y</b>'', snd (the ?X2))" by (cases ?X2) auto
  note c = C5_unresolved_placeholder [OF id un x1 x2]
  have path: "Path (Block ghostNode) = ''ghost''" by code_simp
  from c have full: "processEach idHash ([leftNode] @ ghostNode # [rightNode]) ?p
                 = Some (''<b>x</b>{{ghost}}<b>y</b>'', snd (the ?X2))"
    by (simp add: path)
  from c have err: "list_ex (\<lambda>e. line e = 0 \<and> directive e = ''ghost'') (errLines (snd (the ?X2)))"
    by (simp add: path)
  from full have out: "map_option fst (processEach idHash ([leftNode] @ ghostNode # [rightNode]) ?p)
       = Some ''<b>x</b>{{ghost}}<b>y</b>''"
    by simp
  from full err have ex: "\<exists>p2. map_option snd
               (processEach idHash ([leftNode] @ ghostNode # [rightNode]) ?p) = Some p2
             \<and> list_ex (\<lambda>e. line e = 0 \<and> directive e = ''ghost'') (errLines p2)"
    by simp
  from id un o1 out ex show ?thesis by blast
qed

section \<open>Totality of the interpreter (C9)\<close>

lemma tokenStep_total:
  assumes "wellVars vars" and "\<And>q. kids q \<noteq> None"
    and "rangeInv i ls" and "i \<le> length toks"
  shows "\<exists>ls' p'. tokenStep kids vars toks (i, tok) (ls, p) = Some (ls', p')
                 \<and> rangeInv (Suc i) ls'"
proof -
  have v: "vars n = Some [] \<Longrightarrow> False" for n using assms(1) by (auto simp: wellVars_def)
  obtain out q where k: "kids p = Some (out, q)" using assms(2) [of p] by (cases "kids p") auto
  show ?thesis
    using v k assms(3,4) unfolding tokenStep_def rangeInv_def
    by (cases "Type tok") (auto split: option.splits list.splits)
qed

lemma forEach_tokenStep_total:
  assumes "wellVars vars" and "\<And>q. kids q \<noteq> None"
  shows "rangeInv k ls \<Longrightarrow> k + length ts \<le> length toks \<Longrightarrow>
         forEach (tokenStep kids vars toks) (enumerate k ts) (ls, p) \<noteq> None"
proof (induction ts arbitrary: k ls p)
  case Nil
  show ?case by simp
next
  case (Cons t ts)
  have "k \<le> length toks" using Cons.prems(2) by simp
  from tokenStep_total [where kids = kids and tok = t and p = p, OF assms Cons.prems(1) this]
  obtain ls' p' where
    s: "tokenStep kids vars toks (k, t) (ls, p) = Some (ls', p')"
    and i: "rangeInv (Suc k) ls'"
    by blast
  have "Suc k + length ts \<le> length toks" using Cons.prems(2) by simp
  from Cons.IH [OF i this] show ?case by (simp add: s)
qed

lemma runTokens_total:
  assumes "wellVars vars" and "\<And>q. kids q \<noteq> None"
  shows "runTokens kids vars toks p \<noteq> None"
proof -
  have "rangeInv 0 initLoop" by (simp add: rangeInv_def initLoop_def)
  from forEach_tokenStep_total [where kids = kids and ts = toks and toks = toks and p = p, OF assms this]
  have "forEach (tokenStep kids vars toks) (enumerate 0 toks) (initLoop, p) \<noteq> None"
    by simp
  then show ?thesis by (auto simp: runTokens_def split: option.splits)
qed

lemma processEach_total_aux:
  "(\<And>c p. c \<in> set cs \<Longrightarrow> Process H (Some c) p \<noteq> None) \<Longrightarrow> processEach H cs p \<noteq> None"
proof (induction cs arbitrary: p)
  case Nil
  show ?case by simp
next
  case (Cons c cs)
  have "Process H (Some c) p \<noteq> None" by (rule Cons.prems) simp
  then obtain r p1 where a: "Process H (Some c) p = Some (r, p1)" by auto
  have "processEach H cs p1 \<noteq> None" by (rule Cons.IH) (rule Cons.prems, simp)
  then show ?case using a by (auto split: prod.splits)
qed

lemma Process_total: "treeWellVars n \<Longrightarrow> Process H (Some n) p \<noteq> None"
proof (induction n arbitrary: p)
  case (Node b cs)
  have kids: "processEach H cs q \<noteq> None" for q
    by (rule processEach_total_aux) (use Node in auto)
  show ?case
  proof (cases "ID b = - 1")
    case True
    then show ?thesis
      using kids [of p] by (cases "processEach H cs p") (auto simp: processResult_def)
  next
    case False
    have rt: "runTokens (\<lambda>q. processEach H cs q) (Vars b) toks q \<noteq> None" for toks q
      by (rule runTokens_total) (use Node.prems kids in auto)
    show ?thesis
    proof (cases "Get (registry p) (Path b)")
      case None
      then show ?thesis using False by simp
    next
      case (Some c)
      from rt [of "Tokenize (Template c)" "processAssets H c (Path b) p"]
      show ?thesis using False Some by (auto simp: processResult_def)
    qed
  qed
qed

lemma addVar_wellVars: "wellVars (Vars b) \<Longrightarrow> wellVars (Vars (addVar n v b))"
  by (auto simp: wellVars_def addVar_def)

lemma varLine_wellVars:
  assumes "\<forall>b \<in> set bs. wellVars (Vars b)"
  shows "\<forall>b \<in> set (varLine l bs). wellVars (Vars b)"
proof (cases "bs = []")
  case True
  then show ?thesis by (simp add: varLine_def)
next
  case False
  then have l: "last bs \<in> set bs" and bl: "set (butlast bs) \<subseteq> set bs"
    by (auto dest: in_set_butlastD)
  have "wellVars (Vars (addVar n v (last bs)))" for n v
    using assms l by (simp add: addVar_wellVars)
  then show ?thesis
    using assms bl by (auto simp: varLine_def Let_def split: option.splits)
qed

lemma parseLine_wellVars: "parseLine l i = Some b \<Longrightarrow> wellVars (Vars b)"
  by (auto simp: parseLine_def Let_def wellVars_def split: if_splits option.splits)

lemma newLoop_wellVars:
  "\<forall>b \<in> set bs. wellVars (Vars b) \<Longrightarrow> \<forall>b \<in> set (newLoop ls bs i). wellVars (Vars b)"
proof (induction ls arbitrary: bs i)
  case Nil
  then show ?case by simp
next
  case (Cons l ls)
  show ?case
  proof (cases "HasPrefix (TrimSpace l) ''.''")
    case True
    then show ?thesis
      using Cons.IH [OF varLine_wellVars [OF Cons.prems]] by (simp add: Let_def)
  next
    case False
    show ?thesis
    proof (cases "parseLine (TrimSpace l) i")
      case None
      then show ?thesis using False Cons.IH [OF Cons.prems] by (simp add: Let_def)
    next
      case (Some blk)
      have "\<forall>b \<in> set (bs @ [blk]). wellVars (Vars b)"
        using Cons.prems parseLine_wellVars [OF Some] by auto
      from Cons.IH [OF this] show ?thesis using False Some by (simp add: Let_def)
    qed
  qed
qed

lemma attach_treeWellVars:
  "treeWellVars n \<Longrightarrow> treeWellVars t \<Longrightarrow> treeWellVars (attach pk n t)"
  by (induction t) auto

lemma attachAll_treeWellVars:
  "\<forall>b \<in> set bs. wellVars (Vars b) \<Longrightarrow> treeWellVars root \<Longrightarrow>
   attachAll bs root seen = Some t \<Longrightarrow> treeWellVars t"
proof (induction bs arbitrary: root seen)
  case Nil
  then show ?case by simp
next
  case (Cons b bs)
  have n: "treeWellVars (Node b [])" using Cons.prems(1) by simp
  have a: "treeWellVars (attach pk (Node b []) root)" for pk
    using n Cons.prems(2) by (rule attach_treeWellVars)
  have c: "treeWellVars (appendChild root (Node b []))"
    using n Cons.prems(2) by (cases root) (simp add: appendChild_def)
  have rest: "\<forall>b \<in> set bs. wellVars (Vars b)" using Cons.prems(1) by simp
  from Cons.prems(3) show ?case
    using Cons.IH [OF rest a] Cons.IH [OF rest c]
    by (auto simp: Let_def split: if_splits)
qed

lemma sortNodes_treeWellVars: "treeWellVars t \<Longrightarrow> treeWellVars (sortNodes perm r t)"
proof (induction t arbitrary: r)
  case (Node b cs)
  have "\<forall>c \<in> set (sortSlice perm (if r then firstSeg else lastSeg) cs).
          treeWellVars (sortNodes perm False c)"
    using Node.IH Node.prems sortSlice_subset [of perm _ cs] by auto
  then show ?case using Node.prems by simp
qed

lemma New_treeWellVars: "fst (New perm c) = Some t \<Longrightarrow> treeWellVars t"
proof -
  assume a: "fst (New perm c) = Some t"
  then obtain t0 where t0: "attachAll (parseBlocks c) (Node rootBlock []) [''''] = Some t0"
    and t: "t = sortNodes perm True t0"
    by (auto simp: New_def buildTree_def split: if_splits)
  have "\<forall>b \<in> set (parseBlocks c). wellVars (Vars b)"
    using newLoop_wellVars [of "[]"] by (simp add: parseBlocks_def)
  moreover have "treeWellVars (Node rootBlock [])" by (simp add: rootBlock_def wellVars_def)
  ultimately have "treeWellVars t0" using t0 by (rule attachAll_treeWellVars)
  then show ?thesis unfolding t by (rule sortNodes_treeWellVars)
qed

text \<open>
  C9, in three parts. (1) The loop of \<open>processTemplate\<close> never panics (neither at
  \<open>values[0]\<close> nor at the slice of a range body) when every name bound in the node's
  variable map is bound to a non-empty sequence, provided the processing of the
  children (\<open>kids\<close>, itself an interpretation of templates) does not.
  (2) The parser establishes that precondition in every node of every tree it returns
  (whatever \<open>sort.Slice\<close> makes of a long slice), and \<open>Process\<close> on such a tree
  returns. (3) Outside a range, a variable token whose
  name is bound to the empty sequence makes the step panic: \<open>values[0]\<close> is read
  with no check of the length.
\<close>

theorem C9_total:
  "(wellVars vars \<and> (\<forall>q. kids q \<noteq> None) \<longrightarrow> runTokens kids vars toks p \<noteq> None)
   \<and> (fst (New perm c) = Some t \<longrightarrow> treeWellVars t \<and> Process H (Some t) p \<noteq> None)
   \<and> (Type tok = VarToken \<and> \<not> inRange ls \<and> vars' (Content tok) = Some [] \<longrightarrow>
        tokenStep kids' vars' toks' (i, tok) (ls, p') = None)"
proof -
  have 1: "wellVars vars \<and> (\<forall>q. kids q \<noteq> None) \<longrightarrow> runTokens kids vars toks p \<noteq> None"
    using runTokens_total [of vars kids toks p] by blast
  have 2: "fst (New perm c) = Some t \<longrightarrow> treeWellVars t \<and> Process H (Some t) p \<noteq> None"
    using New_treeWellVars [of perm c t] Process_total [of t H p] by blast
  have 3: "Type tok = VarToken \<and> \<not> inRange ls \<and> vars' (Content tok) = Some [] \<longrightarrow>
        tokenStep kids' vars' toks' (i, tok) (ls, p') = None"
    by (auto simp: tokenStep_def)
  from 1 2 3 show ?thesis by blast
qed

theorem C9_total_witness:
  "wellVars listVars \<and> (\<forall>q. (\<lambda>q. Some ([], q)) q \<noteq> (None :: (string \<times> Processor) option))
   \<and> runTokens (\<lambda>q. Some ([], q)) listVars (Tokenize ''<b>{{.k}}</b>'')
        (template_New boxRegistry) \<noteq> None
   \<and> fst (New stablePerm ''1 row\<newline>.t=x'')
        = Some (the (fst (New stablePerm ''1 row\<newline>.t=x'')))
   \<and> treeWellVars (the (fst (New stablePerm ''1 row\<newline>.t=x'')))
   \<and> Process idHash (Some (the (fst (New stablePerm ''1 row\<newline>.t=x''))))
        (template_New boxRegistry) \<noteq> None
   \<and> map_option (\<lambda>r. (fst (fst r), snd (fst r)))
        (Process idHash (fst (New stablePerm ''1 row\<newline>.t=x'')) (template_New boxRegistry))
       = Some (''<b>x</b>'', None)
   \<and> Type \<lparr>Type = VarToken, Content = ''x''\<rparr> = VarToken \<and> \<not> inRange initLoop
   \<and> emptyBinding (Content \<lparr>Type = VarToken, Content = ''x''\<rparr>) = Some []
   \<and> tokenStep (\<lambda>q. Some ([], q)) emptyBinding [\<lparr>Type = VarToken, Content = ''x''\<rparr>]
        (0, \<lparr>Type = VarToken, Content = ''x''\<rparr>) (initLoop, freshProcessor) = None
   \<and> processTemplate idHash ''{{.x}}'' emptyBinding [] freshProcessor = None"
proof -
  let ?kids = "\<lambda>q :: Processor. Some ([] :: string, q)"
  let ?c = "''1 row\<newline>.t=x''"
  let ?p = "template_New boxRegistry"
  let ?tok = "\<lparr>Type = VarToken, Content = ''x''\<rparr>"
  have w: "wellVars listVars" by (auto simp: wellVars_def listVars_def split: if_splits)
  have k: "\<forall>q. ?kids q \<noteq> None" by simp
  have n: "fst (New stablePerm ?c) \<noteq> None" by code_simp
  then have s: "fst (New stablePerm ?c) = Some (the (fst (New stablePerm ?c)))" by simp
  have ty: "Type ?tok = VarToken" by simp
  have nr: "\<not> inRange initLoop" by (simp add: initLoop_def)
  have eb: "emptyBinding (Content ?tok) = Some []" by (simp add: emptyBinding_def)
  note c = C9_total [where vars = listVars and kids = ?kids
                       and toks = "Tokenize ''<b>{{.k}}</b>''" and p = ?p
                       and perm = stablePerm and c = ?c
                       and t = "the (fst (New stablePerm ?c))" and H = idHash
                       and tok = ?tok and ls = initLoop and vars' = emptyBinding
                       and kids' = ?kids and toks' = "[?tok]" and i = 0
                       and p' = freshProcessor]
  from c w k have r1: "runTokens ?kids listVars (Tokenize ''<b>{{.k}}</b>'') ?p \<noteq> None"
    by blast
  from c s have r2: "treeWellVars (the (fst (New stablePerm ?c)))"
    and r3: "Process idHash (Some (the (fst (New stablePerm ?c)))) ?p \<noteq> None"
    by blast+
  have o: "map_option (\<lambda>r. (fst (fst r), snd (fst r)))
             (Process idHash (fst (New stablePerm ?c)) ?p) = Some (''<b>x</b>'', None)"
    by code_simp
  from c ty nr eb have r4: "tokenStep ?kids emptyBinding [?tok] (0, ?tok) (initLoop, freshProcessor) = None"
    by blast
  have r5: "processTemplate idHash ''{{.x}}'' emptyBinding [] freshProcessor = None"
    by code_simp
  from w k r1 s r2 r3 o ty nr eb r4 r5 show ?thesis by blast
qed

section \<open>The component cache (C8)\<close>

text \<open>
  The extension that \<open>ListComponentFiles\<close> tests is that of the walked path: a
  component path that names a file is listed, as \<open>.\<close>, under the extension of the
  file and under no other.
\<close>

lemma ListComponentFiles_of_file:
  "ListComponentFiles fileStorage ''ui/card.css'' ''.css'' = Inr [''.'']
   \<and> ListComponentFiles fileStorage ''ui/card.css'' ''.js'' = Inr []
   \<and> ListComponentFiles fileStorage ''ui/card.css'' [] = Inr [''.'']"
  by code_simp

lemma loadCSS_trace:
  "loadCSS s fp fs acc tr = (Inr x, tr') \<Longrightarrow> tr' = tr @ map (ReadComponentCall fp) fs"
  by (induction fs arbitrary: acc tr) (force split: sum.splits)+

lemma loadJS_trace:
  "loadJS s fp fs acc tr = (Inr x, tr') \<Longrightarrow> tr' = tr @ map (ReadComponentCall fp) fs"
  by (induction fs arbitrary: acc tr) (force split: sum.splits)+

lemma Load_cached: "loaded r path = Some c \<Longrightarrow> Load s path (r, tr) = (Inr c, (r, tr))"
  by (simp add: Load_def)

lemma Load_caches:
  assumes "Load s path st = (Inr c, st1)"
  shows "loaded (fst st1) path = Some c"
proof (cases st)
  case (Pair r tr)
  show ?thesis
  proof (cases "loaded r path")
    case (Some c')
    then show ?thesis using assms Pair by (auto simp: Load_def)
  next
    case None
    then show ?thesis
      using assms Pair
      by (auto simp: Load_def Let_def split: sum.splits prod.splits)
  qed
qed

lemma Load_miss_trace:
  assumes "Load s path (r, tr) = (Inr c, st1)" and "loaded r path = None"
  shows "\<exists>templateFile cssFiles jsFiles.
           FindTemplateFile s (FilepathJoin (Split path CHR ''.'')) = Inr templateFile
         \<and> ListComponentFiles s (FilepathJoin (Split path CHR ''.'')) ''.css'' = Inr cssFiles
         \<and> ListComponentFiles s (FilepathJoin (Split path CHR ''.'')) ''.js'' = Inr jsFiles
         \<and> snd st1 = tr @
              [FindTemplateFileCall (FilepathJoin (Split path CHR ''.'')),
               ReadComponentCall (FilepathJoin (Split path CHR ''.'')) templateFile,
               ListComponentFilesCall (FilepathJoin (Split path CHR ''.'')) ''.css'']
              @ map (ReadComponentCall (FilepathJoin (Split path CHR ''.''))) cssFiles
              @ [ListComponentFilesCall (FilepathJoin (Split path CHR ''.'')) ''.js'']
              @ map (ReadComponentCall (FilepathJoin (Split path CHR ''.''))) jsFiles"
  using assms
  by (auto simp: Load_def Let_def split: sum.splits prod.splits
           dest!: loadCSS_trace loadJS_trace)

text \<open>
  C8. When \<open>Load\<close> of a path returns a component, a second \<open>Load\<close> of the same path on
  the resulting registry returns the same component and leaves the registry and the
  trace of storage calls as they are, so that both calls together make the storage
  calls of the first one only; \<open>Get\<close> returns that component too. When the path was
  not cached before the first call, these storage calls are exactly one set of reads:
  the template is found and read, the CSS files are listed and read, the JS files are
  listed and read. \<open>Get\<close> never changes the registry or the trace.
\<close>

theorem C8_load_twice:
  assumes "Load s path st = (Inr c, st1)"
  shows "Load s path st1 = (Inr c, st1)
       \<and> GetSt path st1 = (Some c, st1)
       \<and> (loaded (fst st) path = None \<longrightarrow>
            (\<exists>templateFile cssFiles jsFiles.
               FindTemplateFile s (FilepathJoin (Split path CHR ''.'')) = Inr templateFile
             \<and> ListComponentFiles s (FilepathJoin (Split path CHR ''.'')) ''.css'' = Inr cssFiles
             \<and> ListComponentFiles s (FilepathJoin (Split path CHR ''.'')) ''.js'' = Inr jsFiles
             \<and> snd st1 = snd st @
                  [FindTemplateFileCall (FilepathJoin (Split path CHR ''.'')),
                   ReadComponentCall (FilepathJoin (Split path CHR ''.'')) templateFile,
                   ListComponentFilesCall (FilepathJoin (Split path CHR ''.'')) ''.css'']
                  @ map (ReadComponentCall (FilepathJoin (Split path CHR ''.''))) cssFiles
                  @ [ListComponentFilesCall (FilepathJoin (Split path CHR ''.'')) ''.js'']
                  @ map (ReadComponentCall (FilepathJoin (Split path CHR ''.''))) jsFiles))
       \<and> (\<forall>path' st'. snd (GetSt path' st') = st')"
proof -
  have l: "loaded (fst st1) path = Some c" by (rule Load_caches [OF assms])
  have 1: "Load s path st1 = (Inr c, st1)"
    using Load_cached [OF l, of s "snd st1"] by simp
  have 2: "GetSt path st1 = (Some c, st1)" using l by (simp add: GetSt_def Get_def)
  have 3: "loaded (fst st) path = None \<longrightarrow>
            (\<exists>templateFile cssFiles jsFiles.
               FindTemplateFile s (FilepathJoin (Split path CHR ''.'')) = Inr templateFile
             \<and> ListComponentFiles s (FilepathJoin (Split path CHR ''.'')) ''.css'' = Inr cssFiles
             \<and> ListComponentFiles s (FilepathJoin (Split path CHR ''.'')) ''.js'' = Inr jsFiles
             \<and> snd st1 = snd st @
                  [FindTemplateFileCall (FilepathJoin (Split path CHR ''.'')),
                   ReadComponentCall (FilepathJoin (Split path CHR ''.'')) templateFile,
                   ListComponentFilesCall (FilepathJoin (Split path CHR ''.'')) ''.css'']
                  @ map (ReadComponentCall (FilepathJoin (Split path CHR ''.''))) cssFiles
                  @ [ListComponentFilesCall (FilepathJoin (Split path CHR ''.'')) ''.js'']
                  @ map (ReadComponentCall (FilepathJoin (Split path CHR ''.''))) jsFiles)"
    using Load_miss_trace [of s path "fst st" "snd st" c st1] assms by simp
  have 4: "\<forall>path' st'. snd (GetSt path' st') = st'" by (simp add: GetSt_def)
  from 1 2 3 4 show ?thesis by blast
qed

theorem C8_load_twice_witness:
  "\<not> isl (fst firstLoad)
   \<and> Template (projr (fst firstLoad)) = ''<div>{{component}}</div>''
   \<and> Styles (projr (fst firstLoad)) = ''.card{}\<newline>''
   \<and> Scripts (projr (fst firstLoad)) = [(''hover.js'', ''init();'')]
   \<and> Load cardStorage ''ui.card'' (snd firstLoad) = (Inr (projr (fst firstLoad)), snd firstLoad)
   \<and> GetSt ''ui.card'' (snd firstLoad) = (Some (projr (fst firstLoad)), snd firstLoad)
   \<and> snd (snd (Load cardStorage ''ui.card'' (snd firstLoad))) =
       [FindTemplateFileCall ''ui/card'', ReadComponentCall ''ui/card'' ''card.html'',
        ListComponentFilesCall ''ui/card'' ''.css'', ReadComponentCall ''ui/card'' ''card.css'',
        ListComponentFilesCall ''ui/card'' ''.js'', ReadComponentCall ''ui/card'' ''hover.js'']"
proof -
  have ok: "\<not> isl (fst firstLoad)" by code_simp
  have t: "Template (projr (fst firstLoad)) = ''<div>{{component}}</div>''" by code_simp
  have s: "Styles (projr (fst firstLoad)) = ''.card{}\<newline>''" by code_simp
  have j: "Scripts (projr (fst firstLoad)) = [(''hover.js'', ''init();'')]" by code_simp
  have tr: "snd (snd firstLoad) =
       [FindTemplateFileCall ''ui/card'', ReadComponentCall ''ui/card'' ''card.html'',
        ListComponentFilesCall ''ui/card'' ''.css'', ReadComponentCall ''ui/card'' ''card.css'',
        ListComponentFilesCall ''ui/card'' ''.js'', ReadComponentCall ''ui/card'' ''hover.js'']"
    by code_simp
  from ok have "fst firstLoad = Inr (projr (fst firstLoad))" by simp
  then have h: "Load cardStorage ''ui.card'' (component_New, [])
                  = (Inr (projr (fst firstLoad)), snd firstLoad)"
    by (simp add: firstLoad_def prod_eq_iff)
  note c = C8_load_twice [OF h]
  from c have again: "Load cardStorage ''ui.card'' (snd firstLoad)
                        = (Inr (projr (fst firstLoad)), snd firstLoad)"
    by blast
  from c have get: "GetSt ''ui.card'' (snd firstLoad) = (Some (projr (fst firstLoad)), snd firstLoad)"
    by blast
  from again tr have tr2: "snd (snd (Load cardStorage ''ui.card'' (snd firstLoad))) =
       [FindTemplateFileCall ''ui/card'', ReadComponentCall ''ui/card'' ''card.html'',
        ListComponentFilesCall ''ui/card'' ''.css'', ReadComponentCall ''ui/card'' ''card.css'',
        ListComponentFilesCall ''ui/card'' ''.js'', ReadComponentCall ''ui/card'' ''hover.js'']"
    by simp
  from ok t s j again get tr2 show ?thesis by blast
qed

end
